theory Spec2Isabelle
  imports Main "HOL-Library.Sublist"
begin

section \<open>Values, rows and exceptions\<close>

text \<open>
  The plugin \<^verbatim>\<open>plugins/inventory/inventory.py\<close> reads rows from MySQL through a
  \<^verbatim>\<open>DictCursor\<close> and turns each row into an inventory host. A column value is a
  Python scalar. Text is modelled as \<^typ>\<open>string\<close>: a character is a code point
  below 256 of Python's \<^verbatim>\<open>str\<close>.
\<close>

datatype pyval = VNone | VBool bool | VInt int | VStr string

text \<open>Python truth value testing, as used by \<^verbatim>\<open>if hostname:\<close>.\<close>

fun truthy :: "pyval \<Rightarrow> bool" where
  "truthy VNone = False"
| "truthy (VBool b) = b"
| "truthy (VInt i) = (i \<noteq> 0)"
| "truthy (VStr s) = (s \<noteq> [])"

fun type_name :: "pyval \<Rightarrow> string" where
  "type_name VNone = ''NoneType''"
| "type_name (VBool b) = ''bool''"
| "type_name (VInt i) = ''int''"
| "type_name (VStr s) = ''str''"

text \<open>
  A dict is an association list in insertion order (\<^verbatim>\<open>items()\<close> iterates in that
  order); a well-formed dict has distinct keys. A row of the row set is a dict, or,
  when the row set is malformed, some value that is no mapping.
\<close>

type_synonym pydict = "(string \<times> pyval) list"

datatype raw_row = RowDict pydict | RowOther pyval

definition dict_get :: "pydict \<Rightarrow> string \<Rightarrow> pyval" where
  "dict_get kvs k = (case map_of kvs k of None \<Rightarrow> VNone | Some v \<Rightarrow> v)"

text \<open>Exceptions carry their message; \<^verbatim>\<open>to_native(e)\<close> reads it.\<close>

datatype exn = AnsibleError string | AttributeError string | DriverError string

fun to_native :: "exn \<Rightarrow> string" where
  "to_native (AnsibleError m) = m"
| "to_native (AttributeError m) = m"
| "to_native (DriverError m) = m"

section \<open>String operations of the query check\<close>

text \<open>
  \<^verbatim>\<open>str.strip()\<close> removes the characters that \<^verbatim>\<open>str.isspace\<close> accepts. Below
  256 these are the code points 9 to 13, 28 to 32, 133 (next line) and 160 (no-break
  space).
\<close>

definition isspace :: "char \<Rightarrow> bool" where
  "isspace c =
     (let n = (of_char c :: nat)
      in (9 \<le> n \<and> n \<le> 13) \<or> (28 \<le> n \<and> n \<le> 32) \<or> n = 133 \<or> n = 160)"

definition strip :: "string \<Rightarrow> string" where
  "strip s = rev (dropWhile isspace (rev (dropWhile isspace s)))"

text \<open>
  \<^verbatim>\<open>str.upper()\<close>, character by character: a to z, and the letters 224 to 254
  but 247, move down by 32. Three code points are left as they are, since their upper
  case is no single character below 256: 181 and 255 (whose upper case lies above 255)
  and 223 (whose upper case is the two letters SS). None of these touches the test for
  the prefix SELECT: a text that holds one of them among its first six characters does
  not start with SELECT in upper case, here or in Python.
\<close>

definition upper_char :: "char \<Rightarrow> char" where
  "upper_char c =
     (let n = (of_char c :: nat)
      in if (97 \<le> n \<and> n \<le> 122) \<or> (224 \<le> n \<and> n \<le> 254 \<and> n \<noteq> 247)
         then char_of (n - 32) else c)"

definition upper :: "string \<Rightarrow> string" where
  "upper s = map upper_char s"

definition startswith :: "string \<Rightarrow> string \<Rightarrow> bool" where
  "startswith s p = (take (length p) s = p)"

section \<open>Configuration, external collaborators and the state\<close>

text \<open>The options read through \<^verbatim>\<open>get_option\<close>, with the types of DOCUMENTATION.\<close>

record config =
  db_host :: string
  db_port :: int
  db_user :: string
  db_password :: string
  db_name :: string
  db_query :: pyval
  hostname_field :: string
  cache :: bool
  strict :: bool
  compose :: "(string \<times> string) list"
  groups :: "(string \<times> string) list"
  keyed_groups :: "(string \<times> string \<times> string) list"

text \<open>
  Modelled from the spec: the inventory accumulator (\<^verbatim>\<open>self.inventory\<close>) is an
  external collaborator; its code is not among the sources. The spec gives its
  interface as \<^verbatim>\<open>add_host(name, group)\<close> and
  \<^verbatim>\<open>set_variable(host, name, value)\<close>: a host is identified by its name,
  registering a known host under the same group is a no-op, and setting a variable
  overwrites any prior value of that name on that host.
\<close>

record inventory_data =
  hosts :: "pyval list"
  members :: "string \<Rightarrow> pyval list"
  hostvars :: "pyval \<Rightarrow> (string \<rightharpoonup> pyval)"

definition insert_once :: "'a \<Rightarrow> 'a list \<Rightarrow> 'a list" where
  "insert_once x xs = (if x \<in> set xs then xs else xs @ [x])"

definition inventory_add_host :: "pyval \<Rightarrow> string \<Rightarrow> inventory_data \<Rightarrow> inventory_data" where
  "inventory_add_host h g i =
     i\<lparr>hosts := insert_once h (hosts i),
       members := (members i)(g := insert_once h (members i g))\<rparr>"

definition inventory_set_variable ::
  "pyval \<Rightarrow> string \<Rightarrow> pyval \<Rightarrow> inventory_data \<Rightarrow> inventory_data" where
  "inventory_set_variable h k v i = i\<lparr>hostvars := (hostvars i)(h := (hostvars i h)(k \<mapsto> v))\<rparr>"

text \<open>
  Modelled from the spec: the three composition capabilities
  (\<^verbatim>\<open>_set_composite_vars\<close>, \<^verbatim>\<open>_add_host_to_composed_groups\<close>,
  \<^verbatim>\<open>_add_host_to_keyed_groups\<close>) are inherited from an external base class. Per
  the spec they compute and set variables of the host and add group memberships of the
  host, and may fail. What the templating engine computes is a parameter: a capability
  returns the mutations it performs on the host, in order, and the exception that ends
  it, if any.
\<close>

datatype inv_action = SetVar string pyval | JoinGroup string

fun apply_action :: "pyval \<Rightarrow> inventory_data \<Rightarrow> inv_action \<Rightarrow> inventory_data" where
  "apply_action h i (SetVar k v) = inventory_set_variable h k v i"
| "apply_action h i (JoinGroup g) = i\<lparr>members := (members i)(g := insert_once h (members i g))\<rparr>"

type_synonym 'spec capability =
  "'spec \<Rightarrow> pydict \<Rightarrow> pyval \<Rightarrow> bool \<Rightarrow> inventory_data \<Rightarrow> inv_action list \<times> exn option"

text \<open>
  The responses of the outside world, fixed for one run: the database driver
  (\<^verbatim>\<open>pymysql.connect\<close>, \<^verbatim>\<open>connection.cursor\<close>, \<^verbatim>\<open>cursor.execute\<close>
  with \<^verbatim>\<open>fetchall\<close>), the accumulator's check of a host name, and the composition
  capabilities. \<open>Some e\<close> and \<open>Inl e\<close> mean that the call raises \<open>e\<close>.
\<close>

record env =
  connect :: "string \<Rightarrow> int \<Rightarrow> string \<Rightarrow> string \<Rightarrow> string \<Rightarrow> exn option"
  cursor :: "exn option"
  execute :: "string \<Rightarrow> exn + raw_row list"
  add_host_raises :: "pyval \<Rightarrow> exn option"
  set_composite_vars :: "(string \<times> string) list capability"
  add_host_to_composed_groups :: "(string \<times> string) list capability"
  add_host_to_keyed_groups :: "(string \<times> string \<times> string) list capability"

text \<open>
  Calls that leave the plugin, in the order they are made, and the messages shown
  through \<^verbatim>\<open>display.error\<close> and \<^verbatim>\<open>display.warning\<close>. The verbose
  messages (\<^verbatim>\<open>display.vv\<close> and below) are not modelled.
\<close>

datatype event =
    Connect string int string string string
  | Cursor
  | Execute string
  | Close
  | CacheLookup string
  | CacheStore string "raw_row list"
  | AddHost pyval string
  | SetVariable pyval string pyval
  | SetCompositeVars pyval
  | AddHostToComposedGroups pyval
  | AddHostToKeyedGroups pyval

datatype message = DisplayError string | SkippingRow raw_row

record world =
  cache_map :: "string \<rightharpoonup> raw_row list"
  inventory :: inventory_data
  open_connections :: nat
  calls :: "event list"
  shown :: "message list"

definition call :: "event \<Rightarrow> world \<Rightarrow> world" where
  "call ev w = w\<lparr>calls := calls w @ [ev]\<rparr>"

definition display_error :: "string \<Rightarrow> world \<Rightarrow> world" where
  "display_error m w = w\<lparr>shown := shown w @ [DisplayError m]\<rparr>"

definition display_warning :: "raw_row \<Rightarrow> world \<Rightarrow> world" where
  "display_warning row w = w\<lparr>shown := shown w @ [SkippingRow row]\<rparr>"

section \<open>The fetch operation\<close>

text \<open>
  \<^verbatim>\<open>_get_raw_hosts\<close>, lines 155 to 196. The local variable \<^verbatim>\<open>connection\<close> is
  \<open>True\<close> once \<^verbatim>\<open>pymysql.connect\<close> has returned; the \<^verbatim>\<open>finally\<close> block closes
  the connection exactly then.
\<close>

definition finally_close :: "bool \<Rightarrow> world \<Rightarrow> world" where
  "finally_close connection w =
     (if connection then (call Close w)\<lparr>open_connections := open_connections w - 1\<rparr> else w)"

definition query_failed :: "exn \<Rightarrow> bool \<Rightarrow> world \<Rightarrow> (exn + raw_row list) \<times> world" where
  "query_failed e connection w =
     (let error = ''Database query failed: '' @ to_native e
      in (Inl (AnsibleError error), finally_close connection (display_error error w)))"

definition get_raw_hosts :: "env \<Rightarrow> config \<Rightarrow> world \<Rightarrow> (exn + raw_row list) \<times> world" where
  "get_raw_hosts ev cfg w =
     (case db_query cfg of
        VStr query \<Rightarrow>
          if strip query = [] then
            (Inl (AnsibleError ''Query must be a non-empty string''),
             display_error ''Query must be a non-empty string'' w)
          else if \<not> startswith (upper (strip query)) ''SELECT'' then
            (Inl (AnsibleError ''Database query must be a valid SELECT statement''),
             display_error ''Database query must be a valid SELECT statement'' w)
          else
            (let w1 = call (Connect (db_host cfg) (db_port cfg) (db_user cfg)
                               (db_password cfg) (db_name cfg)) w
             in case connect ev (db_host cfg) (db_port cfg) (db_user cfg)
                       (db_password cfg) (db_name cfg) of
                  Some e \<Rightarrow> query_failed e False w1
                | None \<Rightarrow>
                    (let w2 = call Cursor (w1\<lparr>open_connections := open_connections w1 + 1\<rparr>)
                     in case cursor ev of
                          Some e \<Rightarrow> query_failed e True w2
                        | None \<Rightarrow>
                            (let w3 = call (Execute query) w2
                             in case execute ev query of
                                  Inl e \<Rightarrow> query_failed e True w3
                                | Inr raw_hosts \<Rightarrow> (Inr raw_hosts, finally_close True w3))))
      | _ \<Rightarrow>
          (Inl (AnsibleError ''Query must be a non-empty string''),
           display_error ''Query must be a non-empty string'' w))"

section \<open>Population\<close>

text \<open>\<^verbatim>\<open>_add_host\<close>, lines 214 to 232: the loop over \<^verbatim>\<open>host_vars.items()\<close>.\<close>

fun set_row_variables :: "pyval \<Rightarrow> pydict \<Rightarrow> world \<Rightarrow> world" where
  "set_row_variables hostname [] w = w"
| "set_row_variables hostname ((var_name, var_value) # rest) w =
     set_row_variables hostname rest
       ((call (SetVariable hostname var_name var_value) w)
          \<lparr>inventory := inventory_set_variable hostname var_name var_value (inventory w)\<rparr>)"

definition run_capability ::
  "'spec capability \<Rightarrow> event \<Rightarrow> 'spec \<Rightarrow> pydict \<Rightarrow> pyval \<Rightarrow> bool \<Rightarrow> world \<Rightarrow> (exn + unit) \<times> world" where
  "run_capability cap ev spec host_vars hostname strct w =
     (let (actions, failure) = cap spec host_vars hostname strct (inventory w);
          w' = (call ev w)\<lparr>inventory := foldl (apply_action hostname) (inventory w) actions\<rparr>
      in case failure of None \<Rightarrow> (Inr (), w') | Some e \<Rightarrow> (Inl e, w'))"

definition add_host :: "env \<Rightarrow> config \<Rightarrow> pyval \<Rightarrow> pydict \<Rightarrow> world \<Rightarrow> (exn + unit) \<times> world" where
  "add_host ev cfg hostname host_vars w =
     (let w1 = call (AddHost hostname ''all'') w
      in case add_host_raises ev hostname of
           Some e \<Rightarrow> (Inl e, w1)
         | None \<Rightarrow>
             (let w2 = w1\<lparr>inventory := inventory_add_host hostname ''all'' (inventory w1)\<rparr>;
                  w3 = set_row_variables hostname host_vars w2
              in case run_capability (set_composite_vars ev) (SetCompositeVars hostname)
                        (compose cfg) host_vars hostname (strict cfg) w3 of
                   (Inl e, w4) \<Rightarrow> (Inl e, w4)
                 | (Inr u, w4) \<Rightarrow>
                     (case run_capability (add_host_to_composed_groups ev)
                             (AddHostToComposedGroups hostname)
                             (groups cfg) host_vars hostname (strict cfg) w4 of
                        (Inl e, w5) \<Rightarrow> (Inl e, w5)
                      | (Inr u, w5) \<Rightarrow>
                          run_capability (add_host_to_keyed_groups ev)
                            (AddHostToKeyedGroups hostname)
                            (keyed_groups cfg) host_vars hostname (strict cfg) w5)))"

text \<open>
  The body of the \<^verbatim>\<open>try\<close> in \<^verbatim>\<open>_populate\<close>, lines 203 to 208. A row that is
  no mapping has no \<^verbatim>\<open>get\<close>: the attribute lookup raises.
\<close>

fun process_row :: "env \<Rightarrow> config \<Rightarrow> raw_row \<Rightarrow> world \<Rightarrow> (exn + unit) \<times> world" where
  "process_row ev cfg (RowOther v) w =
     (Inl (AttributeError ([CHR 0x27] @ type_name v @ [CHR 0x27] @ '' object has no attribute ''
             @ [CHR 0x27] @ ''get'' @ [CHR 0x27])), w)"
| "process_row ev cfg (RowDict row) w =
     (let hostname = dict_get row (hostname_field cfg)
      in if truthy hostname then add_host ev cfg hostname row w
         else (Inr (), display_warning (RowDict row) w))"

text \<open>\<^verbatim>\<open>_populate\<close>, lines 198 to 212: the loop, with its \<^verbatim>\<open>except\<close> clause.\<close>

fun populate :: "env \<Rightarrow> config \<Rightarrow> raw_row list \<Rightarrow> world \<Rightarrow> (exn + unit) \<times> world" where
  "populate ev cfg [] w = (Inr (), w)"
| "populate ev cfg (row # raw_hosts) w =
     (case process_row ev cfg row w of
        (Inl e, w') \<Rightarrow>
          (let error = ''Failure parsing record: '' @ to_native e
           in (Inl (AnsibleError error), display_error error w'))
      | (Inr u, w') \<Rightarrow> populate ev cfg raw_hosts w')"

section \<open>The orchestration\<close>

text \<open>
  \<^verbatim>\<open>parse\<close>, lines 133 to 153. The configuration has been read and the cache key
  computed by the base class; \<open>cache_flag\<close> is the caller's \<^verbatim>\<open>cache\<close> argument.
  A cached value is a row set.
\<close>

definition parse :: "env \<Rightarrow> config \<Rightarrow> string \<Rightarrow> bool \<Rightarrow> world \<Rightarrow> (exn + unit) \<times> world" where
  "parse ev cfg cache_key cache_flag w =
     (let utilize_cache = (cache cfg \<and> cache_flag);
          (raw_hosts, w1) =
            (if utilize_cache then (cache_map w cache_key, call (CacheLookup cache_key) w)
             else (None, w))
      in case raw_hosts of
           Some rows \<Rightarrow> populate ev cfg rows w1
         | None \<Rightarrow>
             (case get_raw_hosts ev cfg w1 of
                (Inl e, w2) \<Rightarrow> (Inl e, w2)
              | (Inr rows, w2) \<Rightarrow>
                  (let w3 = (if utilize_cache
                             then (call (CacheStore cache_key rows) w2)
                                    \<lparr>cache_map := (cache_map w2)(cache_key \<mapsto> rows)\<rparr>
                             else w2)
                   in populate ev cfg rows w3)))"

section \<open>Vocabulary of the specification\<close>

text \<open>
  The specification's reading of the query invariant: the trimmed text begins with
  SELECT, compared letter by letter without regard to case.
\<close>

definition begins_with_select :: "string \<Rightarrow> bool" where
  "begins_with_select s =
     (6 \<le> length s \<and> list_all2 (\<lambda>c d. upper_char c = upper_char d) (take 6 s) ''SELECT'')"

definition query_rejected :: "pyval \<Rightarrow> bool" where
  "query_rejected q =
     (case q of VStr s \<Rightarrow> list_all isspace s \<or> \<not> begins_with_select (strip s) | _ \<Rightarrow> True)"

text \<open>The message of the configuration error: the first check covers what is no text or blank.\<close>

definition rejection_message :: "pyval \<Rightarrow> string" where
  "rejection_message q =
     (case q of
        VStr s \<Rightarrow> if list_all isspace s then ''Query must be a non-empty string''
                  else ''Database query must be a valid SELECT statement''
      | _ \<Rightarrow> ''Query must be a non-empty string'')"

text \<open>The calls and messages an operation adds to a state.\<close>

definition new_calls :: "world \<Rightarrow> world \<Rightarrow> event list" where
  "new_calls w w' = drop (length (calls w)) (calls w')"

definition new_shown :: "world \<Rightarrow> world \<Rightarrow> message list" where
  "new_shown w w' = drop (length (shown w)) (shown w')"

fun is_db_call :: "event \<Rightarrow> bool" where
  "is_db_call (Connect h p u pw n) = True"
| "is_db_call Cursor = True"
| "is_db_call (Execute q) = True"
| "is_db_call Close = True"
| "is_db_call ev = False"

fun is_cache_call :: "event \<Rightarrow> bool" where
  "is_cache_call (CacheLookup k) = True"
| "is_cache_call (CacheStore k rows) = True"
| "is_cache_call ev = False"

fun is_add_host :: "event \<Rightarrow> bool" where
  "is_add_host (AddHost h g) = True"
| "is_add_host ev = False"

text \<open>A row with a non-empty hostname-field value, and that value.\<close>

fun has_hostname :: "config \<Rightarrow> raw_row \<Rightarrow> bool" where
  "has_hostname cfg (RowDict row) = truthy (dict_get row (hostname_field cfg))"
| "has_hostname cfg (RowOther v) = False"

fun hostname_of :: "config \<Rightarrow> raw_row \<Rightarrow> pyval" where
  "hostname_of cfg (RowDict row) = dict_get row (hostname_field cfg)"
| "hostname_of cfg (RowOther v) = VNone"

text \<open>The calls of the per-host processing, in the order the specification lists them.\<close>

definition host_calls :: "pyval \<Rightarrow> pydict \<Rightarrow> event list" where
  "host_calls h row =
     AddHost h ''all'' # map (\<lambda>(k, v). SetVariable h k v) row
       @ [SetCompositeVars h, AddHostToComposedGroups h, AddHostToKeyedGroups h]"

fun row_calls :: "config \<Rightarrow> raw_row \<Rightarrow> event list" where
  "row_calls cfg (RowDict row) =
     (if truthy (dict_get row (hostname_field cfg))
      then host_calls (dict_get row (hostname_field cfg)) row else [])"
| "row_calls cfg (RowOther v) = []"

text \<open>
  Nothing of the first inventory is missing from the second: hosts and memberships are
  kept in their order, and every variable that was set is still set.
\<close>

definition retains :: "inventory_data \<Rightarrow> inventory_data \<Rightarrow> bool" where
  "retains i j =
     (prefix (hosts i) (hosts j) \<and> (\<forall>g. prefix (members i g) (members j g))
      \<and> (\<forall>h. dom (hostvars i h) \<subseteq> dom (hostvars j h)))"

text \<open>A call of the fetch operation opens a connection: the query passes and the driver connects.\<close>

definition opens_connection :: "env \<Rightarrow> config \<Rightarrow> bool" where
  "opens_connection ev cfg =
     (\<not> query_rejected (db_query cfg)
      \<and> connect ev (db_host cfg) (db_port cfg) (db_user cfg) (db_password cfg) (db_name cfg) = None)"

text \<open>The hostname values of the rows that have one, in the order of the row set.\<close>

definition named_hosts :: "config \<Rightarrow> raw_row list \<Rightarrow> pyval list" where
  "named_hosts cfg rows = map (hostname_of cfg) (filter (has_hostname cfg) rows)"

text \<open>The messages the population loop shows: a skipped row, or a wrapped failure.\<close>

fun population_message :: "message \<Rightarrow> bool" where
  "population_message (SkippingRow row) = True"
| "population_message (DisplayError m) = (take 24 m = ''Failure parsing record: '')"

section \<open>Example inputs\<close>

definition example_rows :: "raw_row list" where
  "example_rows =
     [RowDict [(''hostname'', VStr ''h1''), (''env'', VStr ''PROD'')],
      RowDict [(''hostname'', VStr []), (''env'', VStr ''DEV'')]]"

definition example_env :: env where
  "example_env =
     \<lparr>connect = (\<lambda>h p u pw n. None),
      cursor = None,
      execute = (\<lambda>q. Inr example_rows),
      add_host_raises =
        (\<lambda>h. case h of VStr s \<Rightarrow> None
              | _ \<Rightarrow> Some (AnsibleError ''Invalid host name supplied, expected a string'')),
      set_composite_vars = (\<lambda>spec vars h strct i. ([], None)),
      add_host_to_composed_groups =
        (\<lambda>spec vars h strct i.
           if dict_get vars ''env'' = VStr ''PROD'' then ([JoinGroup ''prod''], None)
           else if strct then ([], Some (AnsibleError ''Could not add host to group''))
           else ([], None)),
      add_host_to_keyed_groups = (\<lambda>spec vars h strct i. ([], None))\<rparr>"

definition example_config :: config where
  "example_config =
     \<lparr>db_host = ''localhost'', db_port = 3306, db_user = ''ansible'',
      db_password = ''ansiblepass'', db_name = ''master'',
      db_query = VStr ''SELECT * FROM mydb;'', hostname_field = ''hostname'',
      cache = True, strict = False, compose = [],
      groups = [(''prod'', ''env == PROD'')], keyed_groups = []\<rparr>"

definition empty_inventory :: inventory_data where
  "empty_inventory = \<lparr>hosts = [], members = (\<lambda>g. []), hostvars = (\<lambda>h. Map.empty)\<rparr>"

definition empty_world :: world where
  "empty_world =
     \<lparr>cache_map = Map.empty, inventory = empty_inventory, open_connections = 0,
      calls = [], shown = []\<rparr>"

definition drop_table_config :: config where
  "drop_table_config = example_config\<lparr>db_query := VStr ''DROP TABLE x''\<rparr>"

definition failing_env :: env where
  "failing_env = example_env\<lparr>execute := (\<lambda>q. Inl (DriverError ''You have an error in your SQL syntax''))\<rparr>"

definition duplicate_rows :: "raw_row list" where
  "duplicate_rows =
     [RowDict [(''hostname'', VStr ''h1''), (''env'', VStr ''PROD'')],
      RowDict [(''hostname'', VStr ''h1''), (''env'', VStr ''DEV'')]]"

definition malformed_rows :: "raw_row list" where
  "malformed_rows =
     [RowDict [(''hostname'', VStr ''h1''), (''env'', VStr ''PROD'')],
      RowOther VNone,
      RowDict [(''hostname'', VStr ''h2''), (''env'', VStr ''DEV'')]]"

definition cached_world :: world where
  "cached_world = empty_world\<lparr>cache_map := [''K'' \<mapsto> example_rows]\<rparr>"

definition strict_config :: config where
  "strict_config = example_config\<lparr>strict := True\<rparr>"

definition strict_rows :: "raw_row list" where
  "strict_rows =
     [RowDict [(''hostname'', VStr ''h1''), (''env'', VStr ''PROD'')],
      RowDict [(''hostname'', VStr ''h2''), (''env'', VStr ''DEV'')],
      RowDict [(''hostname'', VStr ''h3''), (''env'', VStr ''PROD'')]]"

text \<open>A query of no-break spaces and a next line only, and a query padded with them.\<close>

definition blank_config :: config where
  "blank_config = example_config\<lparr>db_query := VStr [CHR 0xA0, CHR 0x85, CHR 0xA0]\<rparr>"

definition padded_config :: config where
  "padded_config = example_config\<lparr>db_query := VStr (CHR 0xA0 # ''select 1'' @ [CHR 0x85])\<rparr>"

section \<open>The query check\<close>

lemma dropWhile_all: "(\<forall>x\<in>set (dropWhile P xs). P x) \<longleftrightarrow> (\<forall>x\<in>set xs. P x)"
  by (induction xs) auto

lemma strip_empty_iff: "strip s = [] \<longleftrightarrow> list_all isspace s"
proof -
  have "strip s = [] \<longleftrightarrow> (\<forall>x\<in>set (rev (dropWhile isspace s)). isspace x)"
    by (simp add: strip_def dropWhile_eq_Nil_conv)
  also have "\<dots> \<longleftrightarrow> (\<forall>x\<in>set s. isspace x)"
    by (simp add: dropWhile_all)
  finally show ?thesis by (simp add: list_all_iff)
qed

lemma upper_char_select: "map upper_char ''SELECT'' = ''SELECT''"
  by (simp add: upper_char_def)

lemma upper_select: "startswith (upper t) ''SELECT'' \<longleftrightarrow> begins_with_select t"
proof -
  have len: "length ''SELECT'' = 6" by simp
  have rel: "list_all2 (\<lambda>c d. upper_char c = upper_char d) xs ys
               \<longleftrightarrow> map upper_char xs = map upper_char ys" for xs ys
    by (induction xs arbitrary: ys) (auto simp: list_all2_Cons1)
  have spec: "begins_with_select t \<longleftrightarrow> 6 \<le> length t \<and> map upper_char (take 6 t) = ''SELECT''"
    unfolding begins_with_select_def rel upper_char_select ..
  have code: "startswith (upper t) ''SELECT'' \<longleftrightarrow> map upper_char (take 6 t) = ''SELECT''"
    unfolding startswith_def upper_def len take_map ..
  have long: "6 \<le> length t" if "map upper_char (take 6 t) = ''SELECT''"
  proof -
    from that have "length (map upper_char (take 6 t)) = length ''SELECT''" by (rule arg_cong)
    then have "min (length t) 6 = 6" unfolding len by simp
    then show ?thesis by simp
  qed
  show ?thesis
  proof
    assume "startswith (upper t) ''SELECT''"
    then have eq: "map upper_char (take 6 t) = ''SELECT''" by (simp only: code)
    from long [OF eq] eq show "begins_with_select t" by (simp only: spec)
  next
    assume "begins_with_select t"
    then show "startswith (upper t) ''SELECT''" by (simp only: spec code)
  qed
qed

text \<open>
  C1. Whenever the query option is no string, is empty or only whitespace, or its trimmed
  text does not begin with SELECT (case-insensitively), the fetch operation raises the
  configuration error: the non-empty message for what is no text or blank, the SELECT
  message otherwise. No call leaves the plugin, so no connection is opened; the cache
  and the inventory are untouched, and the only effect is the error message shown.
\<close>

theorem fetch_rejects_before_connecting:
  assumes "query_rejected (db_query cfg)"
  shows "get_raw_hosts ev cfg w =
           (Inl (AnsibleError (rejection_message (db_query cfg))),
            display_error (rejection_message (db_query cfg)) w)
         \<and> new_calls w (snd (get_raw_hosts ev cfg w)) = []
         \<and> open_connections (snd (get_raw_hosts ev cfg w)) = open_connections w
         \<and> cache_map (snd (get_raw_hosts ev cfg w)) = cache_map w
         \<and> inventory (snd (get_raw_hosts ev cfg w)) = inventory w"
proof (cases "db_query cfg")
  case (VStr query)
  with assms have "strip query = [] \<or> \<not> startswith (upper (strip query)) ''SELECT''"
    by (simp add: query_rejected_def strip_empty_iff upper_select)
  with VStr show ?thesis
    by (auto simp add: get_raw_hosts_def display_error_def new_calls_def rejection_message_def
          strip_empty_iff)
qed (simp_all add: get_raw_hosts_def display_error_def new_calls_def rejection_message_def)

theorem fetch_rejects_before_connecting_witness:
  "query_rejected (db_query drop_table_config)
   \<and> fst (get_raw_hosts example_env drop_table_config empty_world)
       = Inl (AnsibleError ''Database query must be a valid SELECT statement'')
   \<and> new_calls empty_world (snd (get_raw_hosts example_env drop_table_config empty_world)) = []
   \<and> open_connections (snd (get_raw_hosts example_env drop_table_config empty_world)) = 0
   \<and> query_rejected (db_query blank_config)
   \<and> fst (get_raw_hosts example_env blank_config empty_world)
       = Inl (AnsibleError ''Query must be a non-empty string'')
   \<and> new_calls empty_world (snd (get_raw_hosts example_env blank_config empty_world)) = []"
proof -
  have rejected: "query_rejected (db_query drop_table_config)"
    by (simp add: drop_table_config_def query_rejected_def begins_with_select_def strip_def
          isspace_def upper_char_def)
  have message: "rejection_message (db_query drop_table_config)
      = ''Database query must be a valid SELECT statement''"
    by (simp add: drop_table_config_def rejection_message_def isspace_def)
  have blank: "query_rejected (db_query blank_config)"
    by (simp add: blank_config_def query_rejected_def isspace_def)
  have blank_message: "rejection_message (db_query blank_config)
      = ''Query must be a non-empty string''"
    by (simp add: blank_config_def rejection_message_def isspace_def)
  have closed: "open_connections empty_world = 0" by (simp add: empty_world_def)
  from fetch_rejects_before_connecting [OF rejected, of example_env empty_world]
  have first: "fst (get_raw_hosts example_env drop_table_config empty_world)
       = Inl (AnsibleError ''Database query must be a valid SELECT statement'')"
    "new_calls empty_world (snd (get_raw_hosts example_env drop_table_config empty_world)) = []"
    "open_connections (snd (get_raw_hosts example_env drop_table_config empty_world)) = 0"
    unfolding message by (simp_all add: display_error_def new_calls_def closed)
  from fetch_rejects_before_connecting [OF blank, of example_env empty_world]
  have second: "fst (get_raw_hosts example_env blank_config empty_world)
       = Inl (AnsibleError ''Query must be a non-empty string'')"
    "new_calls empty_world (snd (get_raw_hosts example_env blank_config empty_world)) = []"
    unfolding blank_message by (simp_all add: display_error_def new_calls_def)
  from rejected blank first second show ?thesis by (intro conjI)
qed

text \<open>
  A query padded with a no-break space and a next line passes the check, as in Python,
  and is sent to the database as it was written.
\<close>

lemma padded_query_fetches:
  "\<not> query_rejected (db_query padded_config)
   \<and> fst (get_raw_hosts example_env padded_config empty_world) = Inr example_rows
   \<and> calls (snd (get_raw_hosts example_env padded_config empty_world))
       = [Connect ''localhost'' 3306 ''ansible'' ''ansiblepass'' ''master'', Cursor,
          Execute (CHR 0xA0 # ''select 1'' @ [CHR 0x85]), Close]"
  by (simp add: padded_config_def example_config_def example_env_def empty_world_def
        query_rejected_def begins_with_select_def get_raw_hosts_def query_failed_def
        finally_close_def call_def startswith_def upper_def strip_def isspace_def
        upper_char_def char_of_eq_iff Let_def)

section \<open>Frame and effect lemmas; the connection\<close>

lemma new_calls_append: "calls w' = calls w @ cs \<Longrightarrow> new_calls w w' = cs"
  by (simp add: new_calls_def)

lemma new_shown_append: "shown w' = shown w @ ms \<Longrightarrow> new_shown w w' = ms"
  by (simp add: new_shown_def)

lemma retains_refl: "retains i i"
  by (simp add: retains_def)

lemma retains_trans: "retains i j \<Longrightarrow> retains j k \<Longrightarrow> retains i k"
  unfolding retains_def by (meson prefix_order.trans subset_trans)

lemma prefix_insert_once: "prefix xs (insert_once x xs)"
  by (simp add: insert_once_def)

lemma set_insert_once: "set (insert_once x xs) = insert x (set xs)"
  by (auto simp add: insert_once_def)

lemma distinct_insert_once: "distinct xs \<Longrightarrow> distinct (insert_once x xs)"
  by (simp add: insert_once_def)

lemma insert_once_idem: "insert_once x (insert_once x xs) = insert_once x xs"
  by (simp add: insert_once_def)



lemma get_raw_hosts_frame:
  "cache_map (snd (get_raw_hosts ev cfg w)) = cache_map w
   \<and> inventory (snd (get_raw_hosts ev cfg w)) = inventory w
   \<and> open_connections (snd (get_raw_hosts ev cfg w)) = open_connections w"
  by (simp add: get_raw_hosts_def query_failed_def finally_close_def call_def display_error_def
        Let_def split: pyval.split option.split sum.split)

lemma get_raw_hosts_calls:
  "\<exists>cs. calls (snd (get_raw_hosts ev cfg w)) = calls w @ cs \<and> list_all is_db_call cs"
  by (simp add: get_raw_hosts_def query_failed_def finally_close_def call_def display_error_def
        Let_def split: pyval.split option.split sum.split)



lemma set_row_variables_calls:
  "calls (set_row_variables h row w) = calls w @ map (\<lambda>(k, v). SetVariable h k v) row"
  by (induction h row w rule: set_row_variables.induct) (simp_all add: call_def)

lemma set_row_variables_frame:
  "cache_map (set_row_variables h row w) = cache_map w
   \<and> open_connections (set_row_variables h row w) = open_connections w
   \<and> shown (set_row_variables h row w) = shown w
   \<and> hosts (inventory (set_row_variables h row w)) = hosts (inventory w)
   \<and> members (inventory (set_row_variables h row w)) = members (inventory w)"
  by (induction h row w rule: set_row_variables.induct)
     (simp_all add: call_def inventory_set_variable_def)

lemma map_add_cons_rev:
  "m ++ map_of (rev ((k, v) # rest)) = m(k \<mapsto> v) ++ map_of (rev rest)"
  by (rule ext) (simp add: map_add_def split: option.split)

lemma set_row_variables_hostvars:
  "hostvars (inventory (set_row_variables h row w)) =
     (hostvars (inventory w))(h := hostvars (inventory w) h ++ map_of (rev row))"
proof (induction h row w rule: set_row_variables.induct)
  case (1 hostname w)
  then show ?case by simp
next
  case (2 hostname var_name var_value rest w)
  show ?case
    unfolding set_row_variables.simps "2.IH" map_add_cons_rev
    by (simp add: call_def inventory_set_variable_def)
qed


lemma apply_action_hosts: "hosts (apply_action h i a) = hosts i"
  by (cases a) (simp_all add: inventory_set_variable_def)

lemma apply_action_retains: "retains i (apply_action h i a)"
  by (cases a) (auto simp add: retains_def inventory_set_variable_def prefix_insert_once)

lemma apply_action_other_host: "h' \<noteq> h \<Longrightarrow> hostvars (apply_action h i a) h' = hostvars i h'"
  by (cases a) (simp_all add: inventory_set_variable_def)

lemma apply_action_member:
  "h \<in> set (members i g) \<Longrightarrow> members (apply_action h i a) g = members i g"
  by (cases a) (auto simp add: inventory_set_variable_def insert_once_def)

lemma foldl_apply_action_hosts: "hosts (foldl (apply_action h) i acts) = hosts i"
  by (induction acts arbitrary: i) (simp_all add: apply_action_hosts)

lemma foldl_apply_action_retains: "retains i (foldl (apply_action h) i acts)"
proof (induction acts arbitrary: i)
  case Nil
  show ?case by (simp add: retains_refl)
next
  case (Cons a acts)
  have "retains i (apply_action h i a)" by (rule apply_action_retains)
  moreover have "retains (apply_action h i a) (foldl (apply_action h) (apply_action h i a) acts)"
    by (rule Cons.IH)
  ultimately show ?case by (simp add: retains_trans)
qed

lemma foldl_apply_action_other_host:
  "h' \<noteq> h \<Longrightarrow> hostvars (foldl (apply_action h) i acts) h' = hostvars i h'"
  by (induction acts arbitrary: i) (simp_all add: apply_action_other_host)

lemma foldl_apply_action_member:
  "h \<in> set (members i g) \<Longrightarrow> members (foldl (apply_action h) i acts) g = members i g"
  by (induction acts arbitrary: i) (simp_all add: apply_action_member)

lemma run_capability_effect:
  assumes "run_capability cap e spec row h s w = (r, w')"
  shows "calls w' = calls w @ [e]"
    and "cache_map w' = cache_map w"
    and "open_connections w' = open_connections w"
    and "shown w' = shown w"
    and "hosts (inventory w') = hosts (inventory w)"
    and "retains (inventory w) (inventory w')"
    and "h' \<noteq> h \<Longrightarrow> hostvars (inventory w') h' = hostvars (inventory w) h'"
    and "h \<in> set (members (inventory w) g) \<Longrightarrow> members (inventory w') g = members (inventory w) g"
  using assms
  by (auto simp add: run_capability_def call_def Let_def foldl_apply_action_hosts
        foldl_apply_action_retains foldl_apply_action_other_host foldl_apply_action_member
      split: prod.splits option.splits)

lemma inventory_add_host_retains: "retains i (inventory_add_host h g i)"
  by (simp add: retains_def inventory_add_host_def prefix_insert_once)

lemma set_row_variables_retains: "retains (inventory w) (inventory (set_row_variables h row w))"
  by (auto simp add: retains_def set_row_variables_frame set_row_variables_hostvars)

lemma set_row_variables_other_host:
  "h' \<noteq> h \<Longrightarrow> hostvars (inventory (set_row_variables h row w)) h' = hostvars (inventory w) h'"
  by (simp add: set_row_variables_hostvars)

lemma get_raw_hosts_accepts:
  assumes "\<not> query_rejected (db_query cfg)"
  obtains query where "db_query cfg = VStr query" and "strip query \<noteq> []"
    and "startswith (upper (strip query)) ''SELECT''"
  using assms
  by (cases "db_query cfg") (auto simp add: query_rejected_def strip_empty_iff upper_select)

text \<open>
  C5. The fetch operation leaves as many connections open as it found. When it opens a
  connection, on every exit (rows returned, cursor or query raising) its last call is
  the one close of that connection; when it opens none, it closes none. It asks for a
  cursor exactly when it has opened a connection.
\<close>

theorem fetch_closes_connection:
  "open_connections (snd (get_raw_hosts ev cfg w)) = open_connections w
   \<and> (opens_connection ev cfg \<longrightarrow>
        last (new_calls w (snd (get_raw_hosts ev cfg w))) = Close
        \<and> count_list (new_calls w (snd (get_raw_hosts ev cfg w))) Close = 1)
   \<and> (\<not> opens_connection ev cfg \<longrightarrow>
        Close \<notin> set (new_calls w (snd (get_raw_hosts ev cfg w))))
   \<and> (Cursor \<in> set (new_calls w (snd (get_raw_hosts ev cfg w)))) = opens_connection ev cfg"
proof (intro conjI impI)
  show "open_connections (snd (get_raw_hosts ev cfg w)) = open_connections w"
    by (simp add: get_raw_hosts_frame)
next
  assume opened: "opens_connection ev cfg"
  then have "\<not> query_rejected (db_query cfg)" by (simp add: opens_connection_def)
  then obtain query where q: "db_query cfg = VStr query" "strip query \<noteq> []"
      "startswith (upper (strip query)) ''SELECT''"
    by (rule get_raw_hosts_accepts)
  from opened have c: "connect ev (db_host cfg) (db_port cfg) (db_user cfg) (db_password cfg)
      (db_name cfg) = None"
    by (simp add: opens_connection_def)
  from q c show "last (new_calls w (snd (get_raw_hosts ev cfg w))) = Close"
    by (simp add: get_raw_hosts_def query_failed_def finally_close_def call_def
          display_error_def new_calls_def Let_def split: option.split sum.split)
  from q c show "count_list (new_calls w (snd (get_raw_hosts ev cfg w))) Close = 1"
    by (simp add: get_raw_hosts_def query_failed_def finally_close_def call_def
          display_error_def new_calls_def Let_def split: option.split sum.split)
next
  assume "\<not> opens_connection ev cfg"
  then show "Close \<notin> set (new_calls w (snd (get_raw_hosts ev cfg w)))"
    by (cases "db_query cfg")
       (auto simp add: opens_connection_def query_rejected_def strip_empty_iff upper_select
          get_raw_hosts_def query_failed_def finally_close_def call_def
          display_error_def new_calls_def Let_def split: option.split sum.split)
next
  show "(Cursor \<in> set (new_calls w (snd (get_raw_hosts ev cfg w)))) = opens_connection ev cfg"
    by (cases "db_query cfg")
       (auto simp add: opens_connection_def query_rejected_def strip_empty_iff upper_select
          get_raw_hosts_def query_failed_def finally_close_def call_def
          display_error_def new_calls_def Let_def split: option.split sum.split)
qed

theorem fetch_closes_connection_witness:
  "opens_connection failing_env example_config
   \<and> fst (get_raw_hosts failing_env example_config empty_world)
       = Inl (AnsibleError ''Database query failed: You have an error in your SQL syntax'')
   \<and> last (new_calls empty_world (snd (get_raw_hosts failing_env example_config empty_world)))
       = Close
   \<and> open_connections (snd (get_raw_hosts failing_env example_config empty_world)) = 0
   \<and> opens_connection example_env padded_config
   \<and> fst (get_raw_hosts example_env padded_config empty_world) = Inr example_rows
   \<and> last (new_calls empty_world (snd (get_raw_hosts example_env padded_config empty_world)))
       = Close"
proof -
  have opened: "opens_connection failing_env example_config"
    by (simp add: opens_connection_def failing_env_def example_env_def example_config_def
          query_rejected_def begins_with_select_def strip_def isspace_def upper_char_def
          char_of_eq_iff)
  have raised: "fst (get_raw_hosts failing_env example_config empty_world)
       = Inl (AnsibleError ''Database query failed: You have an error in your SQL syntax'')"
    by (simp add: get_raw_hosts_def failing_env_def example_env_def example_config_def
          query_failed_def startswith_def upper_def strip_def isspace_def upper_char_def
          char_of_eq_iff Let_def)
  have closed: "open_connections empty_world = 0" by (simp add: empty_world_def)
  have padded: "opens_connection example_env padded_config"
    using padded_query_fetches
    by (simp add: opens_connection_def example_env_def)
  have fetched: "fst (get_raw_hosts example_env padded_config empty_world) = Inr example_rows"
    using padded_query_fetches by blast
  from fetch_closes_connection [of failing_env example_config empty_world] opened
  have one: "last (new_calls empty_world (snd (get_raw_hosts failing_env example_config
      empty_world))) = Close"
    "open_connections (snd (get_raw_hosts failing_env example_config empty_world)) = 0"
    unfolding closed by blast+
  from fetch_closes_connection [of example_env padded_config empty_world] padded
  have two: "last (new_calls empty_world (snd (get_raw_hosts example_env padded_config
      empty_world))) = Close"
    by blast
  from opened raised one padded fetched two show ?thesis by (intro conjI)
qed

section \<open>Effects of the per-host processing and of the population loop\<close>

lemma add_host_cases:
  assumes "add_host ev cfg h row w = (r, w')"
  obtains (rejected) e where "add_host_raises ev h = Some e" "r = Inl e"
      "w' = call (AddHost h ''all'') w"
  | (compose_raised) w3 e where "add_host_raises ev h = None"
      "w3 = set_row_variables h row
              ((call (AddHost h ''all'') w)\<lparr>inventory := inventory_add_host h ''all'' (inventory w)\<rparr>)"
      "run_capability (set_composite_vars ev) (SetCompositeVars h) (compose cfg) row h
         (strict cfg) w3 = (Inl e, w')" "r = Inl e"
  | (groups_raised) w3 w4 e where "add_host_raises ev h = None"
      "w3 = set_row_variables h row
              ((call (AddHost h ''all'') w)\<lparr>inventory := inventory_add_host h ''all'' (inventory w)\<rparr>)"
      "run_capability (set_composite_vars ev) (SetCompositeVars h) (compose cfg) row h
         (strict cfg) w3 = (Inr (), w4)"
      "run_capability (add_host_to_composed_groups ev) (AddHostToComposedGroups h) (groups cfg)
         row h (strict cfg) w4 = (Inl e, w')" "r = Inl e"
  | (keyed) w3 w4 w5 where "add_host_raises ev h = None"
      "w3 = set_row_variables h row
              ((call (AddHost h ''all'') w)\<lparr>inventory := inventory_add_host h ''all'' (inventory w)\<rparr>)"
      "run_capability (set_composite_vars ev) (SetCompositeVars h) (compose cfg) row h
         (strict cfg) w3 = (Inr (), w4)"
      "run_capability (add_host_to_composed_groups ev) (AddHostToComposedGroups h) (groups cfg)
         row h (strict cfg) w4 = (Inr (), w5)"
      "run_capability (add_host_to_keyed_groups ev) (AddHostToKeyedGroups h) (keyed_groups cfg)
         row h (strict cfg) w5 = (r, w')"
  using assms unfolding add_host_def Let_def
  by (auto simp add: call_def split: option.splits prod.splits sum.splits)

lemma registered_effect:
  assumes "w3 = set_row_variables h row
              ((call (AddHost h ''all'') w)\<lparr>inventory := inventory_add_host h ''all'' (inventory w)\<rparr>)"
  shows "calls w3 = calls w @ AddHost h ''all'' # map (\<lambda>(k, v). SetVariable h k v) row"
    and "cache_map w3 = cache_map w"
    and "open_connections w3 = open_connections w"
    and "shown w3 = shown w"
    and "hosts (inventory w3) = insert_once h (hosts (inventory w))"
    and "members (inventory w3) ''all'' = insert_once h (members (inventory w) ''all'')"
    and "retains (inventory w) (inventory w3)"
    and "h' \<noteq> h \<Longrightarrow> hostvars (inventory w3) h' = hostvars (inventory w) h'"
proof -
  let ?w2 = "(call (AddHost h ''all'') w)\<lparr>inventory := inventory_add_host h ''all'' (inventory w)\<rparr>"
  show "calls w3 = calls w @ AddHost h ''all'' # map (\<lambda>(k, v). SetVariable h k v) row"
    by (simp add: assms set_row_variables_calls call_def)
  show "cache_map w3 = cache_map w" "open_connections w3 = open_connections w"
    "shown w3 = shown w"
    by (simp_all add: assms set_row_variables_frame call_def)
  show "hosts (inventory w3) = insert_once h (hosts (inventory w))"
    by (simp add: assms set_row_variables_frame inventory_add_host_def)
  show "members (inventory w3) ''all'' = insert_once h (members (inventory w) ''all'')"
    by (simp add: assms set_row_variables_frame inventory_add_host_def)
  have "retains (inventory w) (inventory ?w2)"
    by (simp add: inventory_add_host_retains)
  moreover have "retains (inventory ?w2) (inventory w3)"
    unfolding assms by (rule set_row_variables_retains)
  ultimately show "retains (inventory w) (inventory w3)"
    by (rule retains_trans)
  show "hostvars (inventory w3) h' = hostvars (inventory w) h'" if "h' \<noteq> h"
    using that by (simp add: assms set_row_variables_other_host inventory_add_host_def)
qed

lemma add_host_frame:
  assumes "add_host ev cfg h row w = (r, w')"
  shows "cache_map w' = cache_map w \<and> open_connections w' = open_connections w
         \<and> shown w' = shown w"
  using assms
proof (cases rule: add_host_cases)
  case (rejected e)
  then show ?thesis by (simp add: call_def)
next
  case (compose_raised w3 e)
  then show ?thesis
    using registered_effect(2-4) [OF compose_raised(2)] run_capability_effect(2-4) [OF compose_raised(3)]
    by simp
next
  case (groups_raised w3 w4 e)
  then show ?thesis
    using registered_effect(2-4) [OF groups_raised(2)] run_capability_effect(2-4) [OF groups_raised(3)]
      run_capability_effect(2-4) [OF groups_raised(4)]
    by simp
next
  case (keyed w3 w4 w5)
  then show ?thesis
    using registered_effect(2-4) [OF keyed(2)] run_capability_effect(2-4) [OF keyed(3)]
      run_capability_effect(2-4) [OF keyed(4)] run_capability_effect(2-4) [OF keyed(5)]
    by simp
qed

lemma add_host_calls:
  assumes "add_host ev cfg h row w = (r, w')"
  shows "\<exists>cs. calls w' = calls w @ cs \<and> prefix cs (host_calls h row)
              \<and> (r = Inr () \<longrightarrow> cs = host_calls h row)"
  using assms
proof (cases rule: add_host_cases)
  case (rejected e)
  then show ?thesis by (simp add: call_def host_calls_def)
next
  case (compose_raised w3 e)
  then show ?thesis
    using registered_effect(1) [OF compose_raised(2)] run_capability_effect(1) [OF compose_raised(3)]
    by (simp add: host_calls_def)
next
  case (groups_raised w3 w4 e)
  then show ?thesis
    using registered_effect(1) [OF groups_raised(2)] run_capability_effect(1) [OF groups_raised(3)]
      run_capability_effect(1) [OF groups_raised(4)]
    by (simp add: host_calls_def)
next
  case (keyed w3 w4 w5)
  then show ?thesis
    using registered_effect(1) [OF keyed(2)] run_capability_effect(1) [OF keyed(3)]
      run_capability_effect(1) [OF keyed(4)] run_capability_effect(1) [OF keyed(5)]
    by (simp add: host_calls_def)
qed

lemma add_host_hosts:
  assumes "add_host ev cfg h row w = (r, w')"
  shows "hosts (inventory w') =
           (if add_host_raises ev h = None then insert_once h (hosts (inventory w))
            else hosts (inventory w))
         \<and> (r = Inr () \<longrightarrow> add_host_raises ev h = None)"
  using assms
proof (cases rule: add_host_cases)
  case (rejected e)
  then show ?thesis by (simp add: call_def)
next
  case (compose_raised w3 e)
  then show ?thesis
    using registered_effect(5) [OF compose_raised(2)] run_capability_effect(5) [OF compose_raised(3)]
    by simp
next
  case (groups_raised w3 w4 e)
  then show ?thesis
    using registered_effect(5) [OF groups_raised(2)] run_capability_effect(5) [OF groups_raised(3)]
      run_capability_effect(5) [OF groups_raised(4)]
    by simp
next
  case (keyed w3 w4 w5)
  then show ?thesis
    using registered_effect(5) [OF keyed(2)] run_capability_effect(5) [OF keyed(3)]
      run_capability_effect(5) [OF keyed(4)] run_capability_effect(5) [OF keyed(5)]
    by simp
qed

lemma add_host_retains:
  assumes "add_host ev cfg h row w = (r, w')"
  shows "retains (inventory w) (inventory w')"
  using assms
proof (cases rule: add_host_cases)
  case (rejected e)
  then show ?thesis by (simp add: call_def retains_refl)
next
  case (compose_raised w3 e)
  show ?thesis
    using registered_effect(7) [OF compose_raised(2)] run_capability_effect(6) [OF compose_raised(3)]
    by (blast intro: retains_trans)
next
  case (groups_raised w3 w4 e)
  show ?thesis
    using registered_effect(7) [OF groups_raised(2)] run_capability_effect(6) [OF groups_raised(3)]
      run_capability_effect(6) [OF groups_raised(4)]
    by (blast intro: retains_trans)
next
  case (keyed w3 w4 w5)
  show ?thesis
    using registered_effect(7) [OF keyed(2)] run_capability_effect(6) [OF keyed(3)]
      run_capability_effect(6) [OF keyed(4)] run_capability_effect(6) [OF keyed(5)]
    by (blast intro: retains_trans)
qed

lemma add_host_other_host:
  assumes "add_host ev cfg h row w = (r, w')" and "h' \<noteq> h"
  shows "hostvars (inventory w') h' = hostvars (inventory w) h'"
  using assms(1)
proof (cases rule: add_host_cases)
  case (rejected e)
  then show ?thesis by (simp add: call_def)
next
  case (compose_raised w3 e)
  show ?thesis
    using registered_effect(8) [OF compose_raised(2) assms(2)]
      run_capability_effect(7) [OF compose_raised(3) assms(2)]
    by simp
next
  case (groups_raised w3 w4 e)
  show ?thesis
    using registered_effect(8) [OF groups_raised(2) assms(2)]
      run_capability_effect(7) [OF groups_raised(3) assms(2)]
      run_capability_effect(7) [OF groups_raised(4) assms(2)]
    by simp
next
  case (keyed w3 w4 w5)
  show ?thesis
    using registered_effect(8) [OF keyed(2) assms(2)] run_capability_effect(7) [OF keyed(3) assms(2)]
      run_capability_effect(7) [OF keyed(4) assms(2)] run_capability_effect(7) [OF keyed(5) assms(2)]
    by simp
qed

lemma add_host_registered_again:
  assumes "add_host ev cfg h row w = (r, w')" and "h \<in> set (members (inventory w) ''all'')"
  shows "members (inventory w') ''all'' = members (inventory w) ''all''"
  using assms(1)
proof (cases rule: add_host_cases)
  case (rejected e)
  then show ?thesis by (simp add: call_def)
next
  case (compose_raised w3 e)
  have m3: "members (inventory w3) ''all'' = members (inventory w) ''all''"
    using registered_effect(6) [OF compose_raised(2)] assms(2) by (simp add: insert_once_def)
  with assms(2) have "h \<in> set (members (inventory w3) ''all'')" by simp
  from run_capability_effect(8) [OF compose_raised(3) this] m3 show ?thesis by simp
next
  case (groups_raised w3 w4 e)
  have m3: "members (inventory w3) ''all'' = members (inventory w) ''all''"
    using registered_effect(6) [OF groups_raised(2)] assms(2) by (simp add: insert_once_def)
  with assms(2) have "h \<in> set (members (inventory w3) ''all'')" by simp
  from run_capability_effect(8) [OF groups_raised(3) this] m3
  have m4: "members (inventory w4) ''all'' = members (inventory w) ''all''" by simp
  with assms(2) have "h \<in> set (members (inventory w4) ''all'')" by simp
  from run_capability_effect(8) [OF groups_raised(4) this] m4 show ?thesis by simp
next
  case (keyed w3 w4 w5)
  have m3: "members (inventory w3) ''all'' = members (inventory w) ''all''"
    using registered_effect(6) [OF keyed(2)] assms(2) by (simp add: insert_once_def)
  with assms(2) have "h \<in> set (members (inventory w3) ''all'')" by simp
  from run_capability_effect(8) [OF keyed(3) this] m3
  have m4: "members (inventory w4) ''all'' = members (inventory w) ''all''" by simp
  with assms(2) have "h \<in> set (members (inventory w4) ''all'')" by simp
  from run_capability_effect(8) [OF keyed(4) this] m4
  have m5: "members (inventory w5) ''all'' = members (inventory w) ''all''" by simp
  with assms(2) have "h \<in> set (members (inventory w5) ''all'')" by simp
  from run_capability_effect(8) [OF keyed(5) this] m5 show ?thesis by simp
qed

lemma process_row_calls:
  assumes "process_row ev cfg row w = (r, w')"
  shows "\<exists>cs. calls w' = calls w @ cs \<and> prefix cs (row_calls cfg row)
              \<and> (r = Inr () \<longrightarrow> cs = row_calls cfg row)"
proof (cases row)
  case (RowDict d)
  show ?thesis
  proof (cases "truthy (dict_get d (hostname_field cfg))")
    case True
    with RowDict assms have "add_host ev cfg (dict_get d (hostname_field cfg)) d w = (r, w')"
      by simp
    from add_host_calls [OF this] RowDict True show ?thesis by simp
  next
    case False
    with RowDict assms show ?thesis by (auto simp add: display_warning_def)
  qed
next
  case (RowOther v)
  with assms show ?thesis by auto
qed

lemma process_row_frame:
  assumes "process_row ev cfg row w = (r, w')"
  shows "cache_map w' = cache_map w \<and> open_connections w' = open_connections w"
proof (cases row)
  case (RowDict d)
  show ?thesis
  proof (cases "truthy (dict_get d (hostname_field cfg))")
    case True
    with RowDict assms have "add_host ev cfg (dict_get d (hostname_field cfg)) d w = (r, w')"
      by simp
    from add_host_frame [OF this] show ?thesis by simp
  next
    case False
    with RowDict assms show ?thesis by (auto simp add: display_warning_def)
  qed
next
  case (RowOther v)
  with assms show ?thesis by auto
qed

lemma process_row_retains:
  assumes "process_row ev cfg row w = (r, w')"
  shows "retains (inventory w) (inventory w')"
proof (cases row)
  case (RowDict d)
  show ?thesis
  proof (cases "truthy (dict_get d (hostname_field cfg))")
    case True
    with RowDict assms have "add_host ev cfg (dict_get d (hostname_field cfg)) d w = (r, w')"
      by simp
    from add_host_retains [OF this] show ?thesis .
  next
    case False
    with RowDict assms show ?thesis by (auto simp add: display_warning_def retains_refl)
  qed
next
  case (RowOther v)
  with assms show ?thesis by (auto simp add: retains_refl)
qed

lemma process_row_other_host:
  assumes "process_row ev cfg row w = (r, w')" and "h' \<noteq> hostname_of cfg row"
  shows "hostvars (inventory w') h' = hostvars (inventory w) h'"
proof (cases row)
  case (RowDict d)
  show ?thesis
  proof (cases "truthy (dict_get d (hostname_field cfg))")
    case True
    with RowDict assms have "add_host ev cfg (dict_get d (hostname_field cfg)) d w = (r, w')"
      by simp
    from add_host_other_host [OF this] assms(2) RowDict show ?thesis by simp
  next
    case False
    with RowDict assms show ?thesis by (auto simp add: display_warning_def)
  qed
next
  case (RowOther v)
  with assms show ?thesis by auto
qed

lemma process_row_skip:
  assumes "\<not> has_hostname cfg (RowDict d)"
  shows "process_row ev cfg (RowDict d) w = (Inr (), display_warning (RowDict d) w)"
  using assms by simp

lemma process_row_done:
  assumes "process_row ev cfg row w = (Inr (), w')"
  shows "(\<exists>d. row = RowDict d)
     \<and> shown w' = shown w @ (if has_hostname cfg row then [] else [SkippingRow row])
     \<and> hosts (inventory w') =
         (if has_hostname cfg row then insert_once (hostname_of cfg row) (hosts (inventory w))
          else hosts (inventory w))"
proof (cases row)
  case (RowDict d)
  show ?thesis
  proof (cases "truthy (dict_get d (hostname_field cfg))")
    case True
    with RowDict assms
    have run: "add_host ev cfg (dict_get d (hostname_field cfg)) d w = (Inr (), w')"
      by simp
    from add_host_hosts [OF run] add_host_frame [OF run] RowDict True show ?thesis by simp
  next
    case False
    with RowDict assms show ?thesis by (auto simp add: display_warning_def)
  qed
next
  case (RowOther v)
  with assms show ?thesis by auto
qed

lemma process_row_hosts_subset:
  assumes "process_row ev cfg row w = (r, w')"
  shows "set (hosts (inventory w')) \<subseteq>
           set (hosts (inventory w)) \<union> (if has_hostname cfg row then {hostname_of cfg row} else {})"
proof (cases row)
  case (RowDict d)
  show ?thesis
  proof (cases "truthy (dict_get d (hostname_field cfg))")
    case True
    with RowDict assms
    have run: "add_host ev cfg (dict_get d (hostname_field cfg)) d w = (r, w')"
      by simp
    from add_host_hosts [OF run] RowDict True show ?thesis
      by (auto simp add: set_insert_once split: if_splits)
  next
    case False
    with RowDict assms show ?thesis by (auto simp add: display_warning_def)
  qed
next
  case (RowOther v)
  with assms show ?thesis by auto
qed

lemma populate_Cons_cases:
  assumes "populate ev cfg (row # rows) w = (r, w')"
  obtains (raised) e w1 where "process_row ev cfg row w = (Inl e, w1)"
      "r = Inl (AnsibleError (''Failure parsing record: '' @ to_native e))"
      "w' = display_error (''Failure parsing record: '' @ to_native e) w1"
  | (continued) w1 where "process_row ev cfg row w = (Inr (), w1)"
      "populate ev cfg rows w1 = (r, w')"
  using assms by (auto simp add: Let_def split: prod.splits sum.splits)

lemma populate_append:
  "populate ev cfg (xs @ ys) w =
     (case populate ev cfg xs w of
        (Inl e, w') \<Rightarrow> (Inl e, w')
      | (Inr u, w') \<Rightarrow> populate ev cfg ys w')"
  by (induction xs arbitrary: w) (auto simp add: Let_def split: prod.splits sum.splits)

lemma populate_frame:
  "populate ev cfg rows w = (r, w') \<Longrightarrow>
     cache_map w' = cache_map w \<and> open_connections w' = open_connections w"
proof (induction rows arbitrary: w)
  case Nil
  then show ?case by simp
next
  case (Cons row rows)
  from Cons.prems show ?case
  proof (cases rule: populate_Cons_cases)
    case (raised e w1)
    with process_row_frame [OF raised(1)] show ?thesis by (simp add: display_error_def)
  next
    case (continued w1)
    with process_row_frame [OF continued(1)] Cons.IH [OF continued(2)] show ?thesis by simp
  qed
qed

lemma populate_calls:
  "populate ev cfg rows w = (r, w') \<Longrightarrow>
     \<exists>cs. calls w' = calls w @ cs \<and> prefix cs (concat (map (row_calls cfg) rows))
          \<and> (r = Inr () \<longrightarrow> cs = concat (map (row_calls cfg) rows))"
proof (induction rows arbitrary: w)
  case Nil
  then show ?case by simp
next
  case (Cons row rows)
  from Cons.prems show ?case
  proof (cases rule: populate_Cons_cases)
    case (raised e w1)
    from process_row_calls [OF raised(1)] obtain cs where
      "calls w1 = calls w @ cs" "prefix cs (row_calls cfg row)" by blast
    with raised show ?thesis
      by (auto simp add: display_error_def intro: prefix_order.trans)
  next
    case (continued w1)
    from process_row_calls [OF continued(1)]
    have first: "calls w1 = calls w @ row_calls cfg row" by simp
    from Cons.IH [OF continued(2)] obtain cs where
      rest: "calls w' = calls w1 @ cs" "prefix cs (concat (map (row_calls cfg) rows))"
        "r = Inr () \<longrightarrow> cs = concat (map (row_calls cfg) rows)" by blast
    from first rest have "calls w' = calls w @ (row_calls cfg row @ cs)" by simp
    moreover from rest have "prefix (row_calls cfg row @ cs) (concat (map (row_calls cfg) (row # rows)))"
      by simp
    moreover from rest have "r = Inr () \<longrightarrow>
        row_calls cfg row @ cs = concat (map (row_calls cfg) (row # rows))" by simp
    ultimately show ?thesis by blast
  qed
qed

lemma populate_retains:
  "populate ev cfg rows w = (r, w') \<Longrightarrow> retains (inventory w) (inventory w')"
proof (induction rows arbitrary: w)
  case Nil
  then show ?case by (simp add: retains_refl)
next
  case (Cons row rows)
  from Cons.prems show ?case
  proof (cases rule: populate_Cons_cases)
    case (raised e w1)
    with process_row_retains [OF raised(1)] show ?thesis by (simp add: display_error_def)
  next
    case (continued w1)
    from process_row_retains [OF continued(1)] Cons.IH [OF continued(2)] show ?thesis
      by (rule retains_trans)
  qed
qed

lemma populate_hosts_subset:
  "populate ev cfg rows w = (r, w') \<Longrightarrow>
     set (hosts (inventory w')) \<subseteq>
       set (hosts (inventory w)) \<union> hostname_of cfg ` {row \<in> set rows. has_hostname cfg row}"
proof (induction rows arbitrary: w)
  case Nil
  then show ?case by simp
next
  case (Cons row rows)
  from Cons.prems show ?case
  proof (cases rule: populate_Cons_cases)
    case (raised e w1)
    with process_row_hosts_subset [OF raised(1)] show ?thesis
      by (auto simp add: display_error_def split: if_splits)
  next
    case (continued w1)
    from process_row_hosts_subset [OF continued(1)] Cons.IH [OF continued(2)] show ?thesis
      by (auto split: if_splits)
  qed
qed

lemma populate_done:
  "populate ev cfg rows w = (Inr (), w') \<Longrightarrow>
     set (hosts (inventory w')) =
       set (hosts (inventory w)) \<union> hostname_of cfg ` {row \<in> set rows. has_hostname cfg row}
     \<and> (distinct (hosts (inventory w)) \<longrightarrow> distinct (hosts (inventory w')))
     \<and> shown w' = shown w @ map SkippingRow (filter (\<lambda>row. \<not> has_hostname cfg row) rows)
     \<and> list_all (\<lambda>row. \<exists>d. row = RowDict d) rows"
proof (induction rows arbitrary: w)
  case Nil
  then show ?case by simp
next
  case (Cons row rows)
  from Cons.prems show ?case
  proof (cases rule: populate_Cons_cases)
    case (raised e w1)
    then show ?thesis by simp
  next
    case (continued w1)
    from process_row_done [OF continued(1)] Cons.IH [OF continued(2)] show ?thesis
      by (auto simp add: set_insert_once distinct_insert_once)
  qed
qed

lemma populate_error_form:
  "populate ev cfg rows w = (Inl e, w') \<Longrightarrow>
     \<exists>m. e = AnsibleError (''Failure parsing record: '' @ m)
         \<and> last (shown w') = DisplayError (''Failure parsing record: '' @ m)"
proof (induction rows arbitrary: w)
  case Nil
  then show ?case by simp
next
  case (Cons row rows)
  from Cons.prems show ?case
  proof (cases rule: populate_Cons_cases)
    case (raised e1 w1)
    then show ?thesis by (simp add: display_error_def)
  next
    case (continued w1)
    from Cons.IH [OF continued(2)] show ?thesis .
  qed
qed

section \<open>Order of the per-host processing\<close>




section \<open>Failures of the population loop\<close>

lemma inventory_display_error: "inventory (display_error m w) = inventory w"
  by (simp add: display_error_def)

lemma populate_abort:
  assumes "populate ev cfg pre w = (Inr (), w1)" and "process_row ev cfg row w1 = (Inl e, w2)"
  shows "populate ev cfg (pre @ row # rest) w =
           (Inl (AnsibleError (''Failure parsing record: '' @ to_native e)),
            display_error (''Failure parsing record: '' @ to_native e) w2)"
  using assms by (simp add: populate_append Let_def)

lemma populate_failure_split:
  "populate ev cfg rows w = (Inl e, w') \<Longrightarrow>
     \<exists>pre row rest w1 w2 e'. rows = pre @ row # rest
        \<and> populate ev cfg pre w = (Inr (), w1)
        \<and> process_row ev cfg row w1 = (Inl e', w2)
        \<and> e = AnsibleError (''Failure parsing record: '' @ to_native e')
        \<and> w' = display_error (''Failure parsing record: '' @ to_native e') w2"
proof (induction rows arbitrary: w)
  case Nil
  then show ?case by simp
next
  case (Cons r rs)
  from Cons.prems show ?case
  proof (cases rule: populate_Cons_cases)
    case (raised e1 w1)
    have "r # rs = [] @ r # rs" by simp
    moreover have "populate ev cfg [] w = (Inr (), w)" by simp
    ultimately show ?thesis using raised by blast
  next
    case (continued w1)
    from Cons.IH [OF continued(2)] obtain pre row rest v1 v2 e'
      where split: "rs = pre @ row # rest" "populate ev cfg pre w1 = (Inr (), v1)"
        "process_row ev cfg row v1 = (Inl e', v2)"
        "e = AnsibleError (''Failure parsing record: '' @ to_native e')"
        "w' = display_error (''Failure parsing record: '' @ to_native e') v2"
      by blast
    have "r # rs = (r # pre) @ row # rest" using split(1) by simp
    moreover have "populate ev cfg (r # pre) w = (Inr (), v1)"
      using continued(1) split(2) by simp
    ultimately show ?thesis using split(3-5) by blast
  qed
qed

text \<open>
  C4. An exception raised while a row is processed is caught and raised again as an
  AnsibleError whose message is Failure parsing record followed by the message of the
  cause; the error is shown, and no later row is processed, whatever the rest of the row
  set is. A row that is no mapping raises. A row whose hostname is absent or falsy is
  the one case in which a row is passed over without an error: a warning is shown and
  the state is otherwise unchanged; every other row that does not raise is processed
  in full and shows no warning.
\<close>

theorem populate_wraps_exception:
  "(populate ev cfg pre w = (Inr (), w1) \<and> process_row ev cfg row w1 = (Inl e, w2) \<longrightarrow>
      populate ev cfg (pre @ row # rest) w =
        (Inl (AnsibleError (''Failure parsing record: '' @ to_native e)),
         display_error (''Failure parsing record: '' @ to_native e) w2))
   \<and> (\<exists>m. process_row ev cfg (RowOther v) w = (Inl (AttributeError m), w))
   \<and> (\<not> has_hostname cfg (RowDict d) \<longrightarrow>
        process_row ev cfg (RowDict d) w = (Inr (), display_warning (RowDict d) w))
   \<and> (process_row ev cfg row w = (Inr (), w') \<and> has_hostname cfg row \<longrightarrow>
        calls w' = calls w @ row_calls cfg row \<and> shown w' = shown w)"
proof (intro conjI impI)
  assume "populate ev cfg pre w = (Inr (), w1) \<and> process_row ev cfg row w1 = (Inl e, w2)"
  then show "populate ev cfg (pre @ row # rest) w =
        (Inl (AnsibleError (''Failure parsing record: '' @ to_native e)),
         display_error (''Failure parsing record: '' @ to_native e) w2)"
    by (simp add: populate_abort)
next
  show "\<exists>m. process_row ev cfg (RowOther v) w = (Inl (AttributeError m), w)" by simp
next
  assume "\<not> has_hostname cfg (RowDict d)"
  then show "process_row ev cfg (RowDict d) w = (Inr (), display_warning (RowDict d) w)"
    by (rule process_row_skip)
next
  assume run: "process_row ev cfg row w = (Inr (), w') \<and> has_hostname cfg row"
  with process_row_calls [of ev cfg row w "Inr ()" w']
  show "calls w' = calls w @ row_calls cfg row" by simp
  from run process_row_done [of ev cfg row w w'] show "shown w' = shown w" by simp
qed

lemma example_first_row:
  "populate example_env example_config [RowDict [(''hostname'', VStr ''h1''), (''env'', VStr ''PROD'')]]
     empty_world =
     (Inr (),
      \<lparr>cache_map = Map.empty,
       inventory =
         \<lparr>hosts = [VStr ''h1''],
          members = (\<lambda>g. [])(''all'' := [VStr ''h1''], ''prod'' := [VStr ''h1'']),
          hostvars = (\<lambda>h. Map.empty)
            (VStr ''h1'' := [''hostname'' \<mapsto> VStr ''h1'', ''env'' \<mapsto> VStr ''PROD''])\<rparr>,
       open_connections = 0,
       calls = [AddHost (VStr ''h1'') ''all'',
                SetVariable (VStr ''h1'') ''hostname'' (VStr ''h1''),
                SetVariable (VStr ''h1'') ''env'' (VStr ''PROD''),
                SetCompositeVars (VStr ''h1''), AddHostToComposedGroups (VStr ''h1''),
                AddHostToKeyedGroups (VStr ''h1'')],
       shown = []\<rparr>)"
  by (simp add: example_env_def example_config_def empty_world_def
        empty_inventory_def add_host_def run_capability_def call_def
        inventory_add_host_def inventory_set_variable_def insert_once_def dict_get_def Let_def)

theorem populate_wraps_exception_witness:
  "fst (populate example_env example_config malformed_rows empty_world)
     = Inl (AnsibleError (''Failure parsing record: '' @ [CHR 0x27] @ ''NoneType'' @ [CHR 0x27]
              @ '' object has no attribute '' @ [CHR 0x27] @ ''get'' @ [CHR 0x27]))
   \<and> hosts (inventory (snd (populate example_env example_config malformed_rows empty_world)))
     = [VStr ''h1'']"
proof -
  let ?pre = "[RowDict [(''hostname'', VStr ''h1''), (''env'', VStr ''PROD'')]]"
  let ?rest = "[RowDict [(''hostname'', VStr ''h2''), (''env'', VStr ''DEV'')]]"
  let ?w1 = "snd (populate example_env example_config ?pre empty_world)"
  let ?e = "AttributeError ([CHR 0x27] @ ''NoneType'' @ [CHR 0x27]
              @ '' object has no attribute '' @ [CHR 0x27] @ ''get'' @ [CHR 0x27])"
  have pre: "populate example_env example_config ?pre empty_world = (Inr (), ?w1)"
    by (simp only: example_first_row snd_conv)
  have row: "process_row example_env example_config (RowOther VNone) ?w1 = (Inl ?e, ?w1)"
    by simp
  have rows: "malformed_rows = ?pre @ RowOther VNone # ?rest"
    by (simp add: malformed_rows_def)
  from populate_wraps_exception [of example_env example_config ?pre empty_world ?w1
      "RowOther VNone" ?e ?w1 ?rest] pre row
  have "populate example_env example_config malformed_rows empty_world =
        (Inl (AnsibleError (''Failure parsing record: '' @ to_native ?e)),
         display_error (''Failure parsing record: '' @ to_native ?e) ?w1)"
    unfolding rows by blast
  note run = this
  have kept: "hosts (inventory ?w1) = [VStr ''h1'']"
    by (simp only: example_first_row) simp
  have "fst (populate example_env example_config malformed_rows empty_world)
     = Inl (AnsibleError (''Failure parsing record: '' @ to_native ?e))"
    unfolding run fst_conv ..
  moreover have "hosts (inventory (snd (populate example_env example_config malformed_rows
      empty_world))) = [VStr ''h1'']"
    unfolding run snd_conv inventory_display_error kept ..
  ultimately show ?thesis by simp
qed

text \<open>
  C9. When the population loop raises, the row set splits into the rows processed
  before, the row that raised, and the rows never reached. The inventory is left as the
  failing row's processing left it: it retains every host, every membership and every
  variable name that the earlier rows had put there, and the variables of every host but
  the failing row's own are exactly as the earlier rows left them. Nothing is undone.
\<close>

theorem populate_no_rollback:
  assumes "populate ev cfg rows w = (Inl e, w')"
  shows "\<exists>pre row rest w1 w2 e'. rows = pre @ row # rest
           \<and> populate ev cfg pre w = (Inr (), w1)
           \<and> process_row ev cfg row w1 = (Inl e', w2)
           \<and> inventory w' = inventory w2
           \<and> retains (inventory w) (inventory w1)
           \<and> retains (inventory w1) (inventory w')
           \<and> (\<forall>h. h \<noteq> hostname_of cfg row \<longrightarrow>
                 hostvars (inventory w') h = hostvars (inventory w1) h)"
proof -
  from populate_failure_split [OF assms] obtain pre row rest w1 w2 e'
    where split: "rows = pre @ row # rest" "populate ev cfg pre w = (Inr (), w1)"
      "process_row ev cfg row w1 = (Inl e', w2)"
      "w' = display_error (''Failure parsing record: '' @ to_native e') w2"
    by blast
  from split(4) have same: "inventory w' = inventory w2" by (simp add: display_error_def)
  have "retains (inventory w) (inventory w1)" using split(2) by (rule populate_retains)
  moreover have "retains (inventory w1) (inventory w')"
    using process_row_retains [OF split(3)] same by simp
  moreover have "\<forall>h. h \<noteq> hostname_of cfg row \<longrightarrow>
                 hostvars (inventory w') h = hostvars (inventory w1) h"
    using process_row_other_host [OF split(3)] same by simp
  ultimately show ?thesis using split(1-3) same by blast
qed

theorem populate_no_rollback_witness:
  "fst (populate example_env strict_config strict_rows empty_world)
     = Inl (AnsibleError ''Failure parsing record: Could not add host to group'')
   \<and> hosts (inventory (snd (populate example_env strict_config strict_rows empty_world)))
     = [VStr ''h1'', VStr ''h2'']
   \<and> (\<exists>pre row rest w1. strict_rows = pre @ row # rest
         \<and> populate example_env strict_config pre empty_world = (Inr (), w1)
         \<and> retains (inventory w1)
              (inventory (snd (populate example_env strict_config strict_rows empty_world))))"
proof -
  have raised: "fst (populate example_env strict_config strict_rows empty_world)
     = Inl (AnsibleError ''Failure parsing record: Could not add host to group'')"
    by (simp add: example_env_def strict_config_def example_config_def strict_rows_def
        empty_world_def empty_inventory_def add_host_def run_capability_def call_def
        display_error_def inventory_add_host_def inventory_set_variable_def insert_once_def
        dict_get_def Let_def)
  then have run: "populate example_env strict_config strict_rows empty_world =
      (Inl (AnsibleError ''Failure parsing record: Could not add host to group''),
       snd (populate example_env strict_config strict_rows empty_world))"
    by (simp add: prod_eq_iff)
  have added: "hosts (inventory (snd (populate example_env strict_config strict_rows empty_world)))
     = [VStr ''h1'', VStr ''h2'']"
    by (simp add: example_env_def strict_config_def example_config_def strict_rows_def
        empty_world_def empty_inventory_def add_host_def run_capability_def call_def
        display_error_def inventory_add_host_def inventory_set_variable_def insert_once_def
        dict_get_def Let_def)
  from populate_no_rollback [OF run] have kept: "\<exists>pre row rest w1. strict_rows = pre @ row # rest
         \<and> populate example_env strict_config pre empty_world = (Inr (), w1)
         \<and> retains (inventory w1)
              (inventory (snd (populate example_env strict_config strict_rows empty_world)))"
    by blast
  show ?thesis by (rule conjI [OF raised conjI [OF added kept]])
qed

section \<open>Registering a host twice\<close>

lemma count_list_distinct: "distinct xs \<Longrightarrow> x \<in> set xs \<Longrightarrow> count_list xs x = 1"
  by (induction xs) (auto simp add: count_list_0_iff)

lemma count_list_insert_once: "distinct xs \<Longrightarrow> count_list (insert_once x xs) x = 1"
  by (rule count_list_distinct) (simp_all add: distinct_insert_once set_insert_once)

lemma inventory_add_host_idem:
  "inventory_add_host h g (inventory_add_host h g i) = inventory_add_host h g i"
  by (simp add: inventory_add_host_def insert_once_idem)

text \<open>
  C8. Registering a host into group all a second time changes nothing: the inventory
  after two registrations is the inventory after one, and the host is a member of all
  once. In the plugin, processing a row whose host is already registered leaves the host
  list and the membership of all as they were.
\<close>

theorem register_twice:
  "inventory_add_host h ''all'' (inventory_add_host h ''all'' i) = inventory_add_host h ''all'' i
   \<and> (distinct (members i ''all'') \<longrightarrow>
        count_list (members (inventory_add_host h ''all'' (inventory_add_host h ''all'' i)) ''all'') h = 1)
   \<and> (add_host ev cfg h row w = (r, w') \<and> h \<in> set (hosts (inventory w))
        \<and> h \<in> set (members (inventory w) ''all'') \<longrightarrow>
        hosts (inventory w') = hosts (inventory w)
        \<and> members (inventory w') ''all'' = members (inventory w) ''all'')"
proof (intro conjI impI)
  show "inventory_add_host h ''all'' (inventory_add_host h ''all'' i) = inventory_add_host h ''all'' i"
    by (rule inventory_add_host_idem)
next
  assume "distinct (members i ''all'')"
  then show "count_list (members (inventory_add_host h ''all'' (inventory_add_host h ''all'' i))
      ''all'') h = 1"
    by (simp add: inventory_add_host_idem) (simp add: inventory_add_host_def count_list_insert_once)
next
  assume a: "add_host ev cfg h row w = (r, w') \<and> h \<in> set (hosts (inventory w))
        \<and> h \<in> set (members (inventory w) ''all'')"
  then have run: "add_host ev cfg h row w = (r, w')" by simp
  from add_host_hosts [OF run] a show "hosts (inventory w') = hosts (inventory w)"
    by (simp add: insert_once_def)
  from add_host_registered_again [OF run] a
  show "members (inventory w') ''all'' = members (inventory w) ''all''" by simp
qed

theorem register_twice_witness:
  "distinct (members empty_inventory ''all'')
   \<and> members (inventory_add_host (VStr ''h1'') ''all''
        (inventory_add_host (VStr ''h1'') ''all'' empty_inventory)) ''all'' = [VStr ''h1'']
   \<and> count_list (members (inventory_add_host (VStr ''h1'') ''all''
        (inventory_add_host (VStr ''h1'') ''all'' empty_inventory)) ''all'') (VStr ''h1'') = 1"
proof -
  have d: "distinct (members empty_inventory ''all'')" by (simp add: empty_inventory_def)
  from register_twice [of "VStr ''h1''" empty_inventory] d
  have "inventory_add_host (VStr ''h1'') ''all'' (inventory_add_host (VStr ''h1'') ''all''
      empty_inventory) = inventory_add_host (VStr ''h1'') ''all'' empty_inventory"
    and "count_list (members (inventory_add_host (VStr ''h1'') ''all''
        (inventory_add_host (VStr ''h1'') ''all'' empty_inventory)) ''all'') (VStr ''h1'') = 1"
    by blast+
  with d show ?thesis
    by (simp add: inventory_add_host_def insert_once_def empty_inventory_def)
qed

section \<open>Hosts added by the population loop\<close>

lemma add_host_calls_of_row:
  "filter is_add_host (row_calls cfg row) =
     (if has_hostname cfg row then [AddHost (hostname_of cfg row) ''all''] else [])"
proof (cases row)
  case (RowDict d)
  have "filter is_add_host (map (\<lambda>(k, v). SetVariable h k v) d) = []" for h
    by (induction d) auto
  with RowDict show ?thesis by (simp add: host_calls_def)
next
  case (RowOther v)
  then show ?thesis by simp
qed

lemma add_host_calls_of_rows:
  "length (filter is_add_host (concat (map (row_calls cfg) rows)))
     = length (filter (has_hostname cfg) rows)"
  by (induction rows) (simp_all add: add_host_calls_of_row)

lemma populate_done_hosts:
  assumes "populate ev cfg rows w = (Inr (), w')"
  shows "set (hosts (inventory w')) = set (hosts (inventory w)) \<union> set (named_hosts cfg rows)"
    and "hosts (inventory w) = [] \<Longrightarrow>
           length (hosts (inventory w')) = length (remdups (named_hosts cfg rows))"
proof -
  from populate_done [OF assms]
  have eq: "set (hosts (inventory w')) =
       set (hosts (inventory w)) \<union> hostname_of cfg ` {row \<in> set rows. has_hostname cfg row}"
    and dist: "distinct (hosts (inventory w)) \<longrightarrow> distinct (hosts (inventory w'))"
    by simp_all
  have im: "hostname_of cfg ` {row \<in> set rows. has_hostname cfg row} = set (named_hosts cfg rows)"
    by (auto simp add: named_hosts_def)
  from eq im show s: "set (hosts (inventory w')) =
      set (hosts (inventory w)) \<union> set (named_hosts cfg rows)" by simp
  assume empty: "hosts (inventory w) = []"
  with dist have "distinct (hosts (inventory w'))" by simp
  then have "length (hosts (inventory w')) = card (set (hosts (inventory w')))"
    by (simp add: distinct_card)
  also have "\<dots> = card (set (named_hosts cfg rows))" using s empty by simp
  also have "\<dots> = length (remdups (named_hosts cfg rows))"
    by (simp add: length_remdups_card_conv)
  finally show "length (hosts (inventory w')) = length (remdups (named_hosts cfg rows))" .
qed

text \<open>
  C2, as the specification states it, fails: two rows with the same hostname give one host.
\<close>

theorem host_count_counterexample:
  "fst (populate example_env example_config duplicate_rows empty_world) = Inr ()
   \<and> length (hosts (inventory (snd (populate example_env example_config duplicate_rows
        empty_world)))) = 1
   \<and> length (filter (has_hostname example_config) duplicate_rows) = 2
   \<and> length (hosts (inventory (snd (populate example_env example_config duplicate_rows
        empty_world))))
     \<noteq> length (filter (has_hostname example_config) duplicate_rows)"
  by (simp add: example_env_def example_config_def duplicate_rows_def
        empty_world_def empty_inventory_def add_host_def run_capability_def call_def
        inventory_add_host_def inventory_set_variable_def insert_once_def dict_get_def Let_def)

text \<open>
  C2, amended. A row whose hostname is absent or falsy is passed over with a warning and
  never raises. No host is ever added but the hostname value of a row that has one. When
  the loop completes, the hosts of the inventory are the hosts it had and the hostname
  values of the rows that have one; the warnings shown are those of the rows passed
  over, in order; the host is registered once per row that has a hostname; and, from an
  inventory without hosts, the number of hosts is the number of distinct hostname
  values.
\<close>

theorem populate_hosts:
  "(\<not> has_hostname cfg (RowDict d) \<longrightarrow>
      process_row ev cfg (RowDict d) w = (Inr (), display_warning (RowDict d) w))
   \<and> set (hosts (inventory (snd (populate ev cfg rows w))))
       \<subseteq> set (hosts (inventory w)) \<union> set (named_hosts cfg rows)
   \<and> (fst (populate ev cfg rows w) = Inr () \<longrightarrow>
        set (hosts (inventory (snd (populate ev cfg rows w))))
          = set (hosts (inventory w)) \<union> set (named_hosts cfg rows)
        \<and> new_shown w (snd (populate ev cfg rows w))
          = map SkippingRow (filter (\<lambda>row. \<not> has_hostname cfg row) rows)
        \<and> length (filter is_add_host (new_calls w (snd (populate ev cfg rows w))))
          = length (filter (has_hostname cfg) rows)
        \<and> (hosts (inventory w) = [] \<longrightarrow>
             length (hosts (inventory (snd (populate ev cfg rows w))))
               = length (remdups (named_hosts cfg rows))))"
proof (intro conjI impI)
  assume "\<not> has_hostname cfg (RowDict d)"
  then show "process_row ev cfg (RowDict d) w = (Inr (), display_warning (RowDict d) w)"
    by (rule process_row_skip)
next
  have run: "populate ev cfg rows w = (fst (populate ev cfg rows w), snd (populate ev cfg rows w))"
    by simp
  have "hostname_of cfg ` {row \<in> set rows. has_hostname cfg row} = set (named_hosts cfg rows)"
    by (auto simp add: named_hosts_def)
  with populate_hosts_subset [OF run]
  show "set (hosts (inventory (snd (populate ev cfg rows w))))
       \<subseteq> set (hosts (inventory w)) \<union> set (named_hosts cfg rows)"
    by simp
next
  assume ok: "fst (populate ev cfg rows w) = Inr ()"
  then have run: "populate ev cfg rows w = (Inr (), snd (populate ev cfg rows w))"
    by (simp add: prod_eq_iff)
  from populate_done_hosts(1) [OF run]
  show "set (hosts (inventory (snd (populate ev cfg rows w))))
          = set (hosts (inventory w)) \<union> set (named_hosts cfg rows)" .
  from populate_done [OF run]
  show "new_shown w (snd (populate ev cfg rows w))
          = map SkippingRow (filter (\<lambda>row. \<not> has_hostname cfg row) rows)"
    by (simp add: new_shown_def)
  from populate_calls [OF run]
  have "new_calls w (snd (populate ev cfg rows w)) = concat (map (row_calls cfg) rows)"
    by (auto simp add: new_calls_def)
  then show "length (filter is_add_host (new_calls w (snd (populate ev cfg rows w))))
          = length (filter (has_hostname cfg) rows)"
    by (simp add: add_host_calls_of_rows)
  assume "hosts (inventory w) = []"
  with populate_done_hosts(2) [OF run]
  show "length (hosts (inventory (snd (populate ev cfg rows w))))
               = length (remdups (named_hosts cfg rows))" .
qed

theorem populate_hosts_witness:
  "fst (populate example_env example_config duplicate_rows empty_world) = Inr ()
   \<and> hosts (inventory empty_world) = []
   \<and> set (hosts (inventory (snd (populate example_env example_config duplicate_rows
        empty_world)))) = {VStr ''h1''}
   \<and> length (hosts (inventory (snd (populate example_env example_config duplicate_rows
        empty_world)))) = 1
   \<and> length (filter is_add_host (new_calls empty_world
        (snd (populate example_env example_config duplicate_rows empty_world)))) = 2"
proof -
  have ok: "fst (populate example_env example_config duplicate_rows empty_world) = Inr ()"
    by (simp add: example_env_def example_config_def duplicate_rows_def
        empty_world_def empty_inventory_def add_host_def run_capability_def call_def
        inventory_add_host_def inventory_set_variable_def insert_once_def dict_get_def Let_def)
  have none: "hosts (inventory empty_world) = []"
    by (simp add: empty_world_def empty_inventory_def)
  have names: "named_hosts example_config duplicate_rows = [VStr ''h1'', VStr ''h1'']"
    by (simp add: named_hosts_def example_config_def duplicate_rows_def dict_get_def)
  have count: "length (filter (has_hostname example_config) duplicate_rows) = 2"
    by (simp add: example_config_def duplicate_rows_def dict_get_def)
  from populate_hosts [of example_config "[]" example_env empty_world duplicate_rows] ok none
  have "set (hosts (inventory (snd (populate example_env example_config duplicate_rows
        empty_world)))) = set (hosts (inventory empty_world))
          \<union> set (named_hosts example_config duplicate_rows)"
    and "length (filter is_add_host (new_calls empty_world
        (snd (populate example_env example_config duplicate_rows empty_world))))
          = length (filter (has_hostname example_config) duplicate_rows)"
    and "length (hosts (inventory (snd (populate example_env example_config duplicate_rows
        empty_world)))) = length (remdups (named_hosts example_config duplicate_rows))"
    by blast+
  with ok none show ?thesis unfolding names count by simp
qed

section \<open>The orchestration and the cache\<close>

lemma parse_hit:
  assumes "cache cfg" and "cache_flag" and "cache_map w k = Some rows"
  shows "parse ev cfg k cache_flag w = populate ev cfg rows (call (CacheLookup k) w)"
  using assms by (simp add: parse_def)

lemma parse_fresh:
  assumes "\<not> (cache cfg \<and> cache_flag) \<or> cache_map w k = None"
  shows "parse ev cfg k cache_flag w =
     (case get_raw_hosts ev cfg (if cache cfg \<and> cache_flag then call (CacheLookup k) w else w) of
        (Inl e, w2) \<Rightarrow> (Inl e, w2)
      | (Inr rows, w2) \<Rightarrow>
          populate ev cfg rows
            (if cache cfg \<and> cache_flag
             then (call (CacheStore k rows) w2)\<lparr>cache_map := (cache_map w2)(k \<mapsto> rows)\<rparr>
             else w2))"
  using assms by (auto simp add: parse_def Let_def split: prod.split sum.split)

lemma row_calls_inventory:
  "\<forall>e\<in>set (row_calls cfg row). \<not> is_db_call e \<and> \<not> is_cache_call e"
  by (cases row) (auto simp add: host_calls_def)

lemma populate_calls_inventory:
  assumes "populate ev cfg rows w = (r, w')"
  shows "\<exists>cs. calls w' = calls w @ cs \<and> (\<forall>e\<in>set cs. \<not> is_db_call e \<and> \<not> is_cache_call e)"
proof -
  from populate_calls [OF assms] obtain cs where
    cs: "calls w' = calls w @ cs" "prefix cs (concat (map (row_calls cfg) rows))" by blast
  have "\<forall>e\<in>set (concat (map (row_calls cfg) rows)). \<not> is_db_call e \<and> \<not> is_cache_call e"
    using row_calls_inventory by auto
  with cs(2) have "\<forall>e\<in>set cs. \<not> is_db_call e \<and> \<not> is_cache_call e"
    by (meson set_mono_prefix subsetD)
  with cs(1) show ?thesis by blast
qed

lemma db_call_not_cache_call: "is_db_call e \<Longrightarrow> \<not> is_cache_call e"
  by (cases e) simp_all

lemma get_raw_hosts_calls_form:
  assumes "get_raw_hosts ev cfg w = (r, w')"
  shows "\<exists>cs. calls w' = calls w @ cs \<and> (\<forall>e\<in>set cs. is_db_call e \<and> \<not> is_cache_call e)"
proof -
  from get_raw_hosts_calls [of ev cfg w] assms obtain cs where
    "calls w' = calls w @ cs" "list_all is_db_call cs" by auto
  then show ?thesis by (auto simp add: list_all_iff db_call_not_cache_call)
qed

lemma get_raw_hosts_connects:
  assumes "\<not> query_rejected (db_query cfg)"
  shows "\<exists>cs. calls (snd (get_raw_hosts ev cfg w)) =
           calls w @ Connect (db_host cfg) (db_port cfg) (db_user cfg) (db_password cfg)
             (db_name cfg) # cs"
proof -
  from assms obtain query where q: "db_query cfg = VStr query" "strip query \<noteq> []"
      "startswith (upper (strip query)) ''SELECT''"
    by (rule get_raw_hosts_accepts)
  then show ?thesis
    by (simp add: get_raw_hosts_def query_failed_def finally_close_def call_def
          display_error_def Let_def split: option.split sum.split)
qed

lemma process_row_shown:
  assumes "process_row ev cfg row w = (r, w')"
  shows "shown w' = shown w \<or> shown w' = shown w @ [SkippingRow row]"
proof (cases row)
  case (RowDict d)
  show ?thesis
  proof (cases "truthy (dict_get d (hostname_field cfg))")
    case True
    with RowDict assms have "add_host ev cfg (dict_get d (hostname_field cfg)) d w = (r, w')"
      by simp
    from add_host_frame [OF this] show ?thesis by simp
  next
    case False
    with RowDict assms show ?thesis by (auto simp add: display_warning_def)
  qed
next
  case (RowOther v)
  with assms show ?thesis by auto
qed

lemma populate_shown_form:
  "populate ev cfg rows w = (r, w') \<Longrightarrow>
     \<exists>ms. shown w' = shown w @ ms \<and> list_all population_message ms"
proof (induction rows arbitrary: w)
  case Nil
  then show ?case by simp
next
  case (Cons row rows)
  from Cons.prems show ?case
  proof (cases rule: populate_Cons_cases)
    case (raised e w1)
    with process_row_shown [OF raised(1)] show ?thesis
      by (auto simp add: display_error_def)
  next
    case (continued w1)
    from Cons.IH [OF continued(2)] obtain ms where
      ms: "shown w' = shown w1 @ ms" "list_all population_message ms" by blast
    from process_row_shown [OF continued(1)] ms show ?thesis by auto
  qed
qed

text \<open>
  C10. On a cache hit the orchestration is the population of the cached rows and nothing
  else: the query option is never read, so whatever it is, neither configuration error
  is raised or shown, no database call is made, and the load completes whenever the
  population of the cached rows does.
\<close>

theorem cached_rows_skip_validation:
  "cache cfg \<and> cache_flag \<and> cache_map w k = Some rows \<longrightarrow>
     parse ev cfg k cache_flag w = populate ev cfg rows (call (CacheLookup k) w)
     \<and> fst (parse ev cfg k cache_flag w) \<noteq> Inl (AnsibleError ''Query must be a non-empty string'')
     \<and> fst (parse ev cfg k cache_flag w)
         \<noteq> Inl (AnsibleError ''Database query must be a valid SELECT statement'')
     \<and> list_all population_message (new_shown w (snd (parse ev cfg k cache_flag w)))
     \<and> filter is_db_call (new_calls w (snd (parse ev cfg k cache_flag w))) = []"
proof (intro impI)
  assume hit: "cache cfg \<and> cache_flag \<and> cache_map w k = Some rows"
  then have eq: "parse ev cfg k cache_flag w = populate ev cfg rows (call (CacheLookup k) w)"
    by (simp add: parse_hit)
  let ?w1 = "call (CacheLookup k) w"
  let ?r = "fst (populate ev cfg rows ?w1)"
  let ?w' = "snd (populate ev cfg rows ?w1)"
  have run: "populate ev cfg rows ?w1 = (?r, ?w')" by simp
  have form: "?r \<noteq> Inl (AnsibleError ''Query must be a non-empty string'')
      \<and> ?r \<noteq> Inl (AnsibleError ''Database query must be a valid SELECT statement'')"
  proof (cases ?r)
    case (Inl e)
    with run have "populate ev cfg rows ?w1 = (Inl e, ?w')" by simp
    from populate_error_form [OF this] obtain m
      where "e = AnsibleError (''Failure parsing record: '' @ m)" by blast
    with Inl show ?thesis by simp
  next
    case (Inr u)
    then show ?thesis by simp
  qed
  from populate_shown_form [OF run] obtain ms where
    ms: "shown ?w' = shown ?w1 @ ms" "list_all population_message ms" by blast
  then have shown: "list_all population_message (new_shown w ?w')"
    by (simp add: new_shown_def call_def)
  from populate_calls_inventory [OF run] obtain cs where
    cs: "calls ?w' = calls ?w1 @ cs" "\<forall>e\<in>set cs. \<not> is_db_call e \<and> \<not> is_cache_call e"
    by blast
  then have "new_calls w ?w' = CacheLookup k # cs" by (simp add: new_calls_def call_def)
  with cs(2) have nodb: "filter is_db_call (new_calls w ?w') = []" by (simp add: filter_empty_conv)
  from form shown nodb show "parse ev cfg k cache_flag w = populate ev cfg rows (call (CacheLookup k) w)
     \<and> fst (parse ev cfg k cache_flag w) \<noteq> Inl (AnsibleError ''Query must be a non-empty string'')
     \<and> fst (parse ev cfg k cache_flag w)
         \<noteq> Inl (AnsibleError ''Database query must be a valid SELECT statement'')
     \<and> list_all population_message (new_shown w (snd (parse ev cfg k cache_flag w)))
     \<and> filter is_db_call (new_calls w (snd (parse ev cfg k cache_flag w))) = []"
    unfolding eq by simp
qed

lemma example_cached_populate:
  "populate example_env drop_table_config example_rows (call (CacheLookup ''K'') cached_world) =
     (Inr (),
      \<lparr>cache_map = [''K'' \<mapsto> example_rows],
       inventory =
         \<lparr>hosts = [VStr ''h1''],
          members = (\<lambda>g. [])(''all'' := [VStr ''h1''], ''prod'' := [VStr ''h1'']),
          hostvars = (\<lambda>h. Map.empty)
            (VStr ''h1'' := [''hostname'' \<mapsto> VStr ''h1'', ''env'' \<mapsto> VStr ''PROD''])\<rparr>,
       open_connections = 0,
       calls = [CacheLookup ''K'', AddHost (VStr ''h1'') ''all'',
                SetVariable (VStr ''h1'') ''hostname'' (VStr ''h1''),
                SetVariable (VStr ''h1'') ''env'' (VStr ''PROD''),
                SetCompositeVars (VStr ''h1''), AddHostToComposedGroups (VStr ''h1''),
                AddHostToKeyedGroups (VStr ''h1'')],
       shown = [SkippingRow (RowDict [(''hostname'', VStr []), (''env'', VStr ''DEV'')])]\<rparr>)"
  by (simp add: example_rows_def example_env_def drop_table_config_def example_config_def
        cached_world_def empty_world_def
        empty_inventory_def add_host_def run_capability_def call_def display_warning_def
        inventory_add_host_def inventory_set_variable_def insert_once_def dict_get_def Let_def)

theorem cached_rows_skip_validation_witness:
  "query_rejected (db_query drop_table_config)
   \<and> cache drop_table_config \<and> cache_map cached_world ''K'' = Some example_rows
   \<and> fst (parse example_env drop_table_config ''K'' True cached_world) = Inr ()
   \<and> hosts (inventory (snd (parse example_env drop_table_config ''K'' True cached_world)))
       = [VStr ''h1'']"
proof -
  have rejected: "query_rejected (db_query drop_table_config)"
    by (simp add: drop_table_config_def query_rejected_def begins_with_select_def strip_def
          isspace_def upper_char_def)
  have hit: "cache drop_table_config \<and> True \<and> cache_map cached_world ''K'' = Some example_rows"
    by (simp add: drop_table_config_def example_config_def cached_world_def)
  from cached_rows_skip_validation [of drop_table_config True cached_world "''K''" example_rows
      example_env] hit
  have "parse example_env drop_table_config ''K'' True cached_world
      = populate example_env drop_table_config example_rows (call (CacheLookup ''K'') cached_world)"
    by blast
  then have "fst (parse example_env drop_table_config ''K'' True cached_world) = Inr ()"
    and "hosts (inventory (snd (parse example_env drop_table_config ''K'' True cached_world)))
       = [VStr ''h1'']"
    by (simp_all only: example_cached_populate fst_conv snd_conv world.simps inventory_data.simps)
  with rejected hit show ?thesis by simp
qed

lemma db_call_not_add_host: "is_db_call e \<Longrightarrow> \<not> is_add_host e"
  by (cases e) simp_all

lemma parse_fresh_run:
  assumes fresh: "\<not> (cache cfg \<and> cache_flag) \<or> cache_map w k = None"
    and w1: "w1 = (if cache cfg \<and> cache_flag then call (CacheLookup k) w else w)"
  obtains (raised) e w2 where "get_raw_hosts ev cfg w1 = (Inl e, w2)"
      "parse ev cfg k cache_flag w = (Inl e, w2)"
  | (fetched) rows w2 w3 where "get_raw_hosts ev cfg w1 = (Inr rows, w2)"
      "w3 = (if cache cfg \<and> cache_flag
             then (call (CacheStore k rows) w2)\<lparr>cache_map := (cache_map w2)(k \<mapsto> rows)\<rparr>
             else w2)"
      "parse ev cfg k cache_flag w = populate ev cfg rows w3"
proof (cases "get_raw_hosts ev cfg w1")
  case (Pair r w2)
  show ?thesis
  proof (cases r)
    case (Inl e)
    with Pair parse_fresh [OF fresh, of ev] w1 have "parse ev cfg k cache_flag w = (Inl e, w2)"
      by simp
    moreover from Pair Inl have "get_raw_hosts ev cfg w1 = (Inl e, w2)" by simp
    ultimately show ?thesis by (rule raised [rotated])
  next
    case (Inr rows)
    with Pair parse_fresh [OF fresh, of ev] w1
    have "parse ev cfg k cache_flag w = populate ev cfg rows
        (if cache cfg \<and> cache_flag
         then (call (CacheStore k rows) w2)\<lparr>cache_map := (cache_map w2)(k \<mapsto> rows)\<rparr>
         else w2)"
      by simp
    moreover from Pair Inr have "get_raw_hosts ev cfg w1 = (Inr rows, w2)" by simp
    ultimately show ?thesis by (rule fetched [rotated 2, OF _ _ refl])
  qed
qed

lemma cache_calls:
  "list_ex is_cache_call (new_calls w (snd (parse ev cfg k cache_flag w))) = (cache cfg \<and> cache_flag)
   \<and> (\<not> (cache cfg \<and> cache_flag) \<longrightarrow>
        cache_map (snd (parse ev cfg k cache_flag w)) = cache_map w)
   \<and> (cache cfg \<and> cache_flag \<longrightarrow>
        take 1 (new_calls w (snd (parse ev cfg k cache_flag w))) = [CacheLookup k])"
proof (cases "cache cfg \<and> cache_flag")
  case False
  then have fresh: "\<not> (cache cfg \<and> cache_flag) \<or> cache_map w k = None" by simp
  have w1: "w = (if cache cfg \<and> cache_flag then call (CacheLookup k) w else w)"
    using False by auto
  from fresh w1 have "(\<exists>cs. calls (snd (parse ev cfg k cache_flag w)) = calls w @ cs
        \<and> (\<forall>e\<in>set cs. \<not> is_cache_call e))
      \<and> cache_map (snd (parse ev cfg k cache_flag w)) = cache_map w"
  proof (cases rule: parse_fresh_run [where ev = ev])
    case (raised e w2)
    from get_raw_hosts_calls_form [OF raised(1)] get_raw_hosts_frame [of ev cfg w] raised
    show ?thesis by auto
  next
    case (fetched rows w2 w3)
    from fetched(2) False have w3: "w3 = w2" by simp
    let ?w' = "snd (populate ev cfg rows w2)"
    have run: "populate ev cfg rows w2 = (fst (populate ev cfg rows w2), ?w')" by simp
    from get_raw_hosts_calls_form [OF fetched(1)] obtain cs1 where
      c1: "calls w2 = calls w @ cs1" "\<forall>e\<in>set cs1. is_db_call e \<and> \<not> is_cache_call e" by blast
    from populate_calls_inventory [OF run] obtain cs2 where
      c2: "calls ?w' = calls w2 @ cs2" "\<forall>e\<in>set cs2. \<not> is_db_call e \<and> \<not> is_cache_call e"
      by blast
    from c1 c2 have "calls ?w' = calls w @ (cs1 @ cs2)" "\<forall>e\<in>set (cs1 @ cs2). \<not> is_cache_call e"
      by auto
    moreover have "cache_map ?w' = cache_map w"
      using populate_frame [OF run] get_raw_hosts_frame [of ev cfg w] fetched(1) by simp
    ultimately show ?thesis unfolding fetched(3) w3 by blast
  qed
  then obtain cs where "calls (snd (parse ev cfg k cache_flag w)) = calls w @ cs"
      "\<forall>e\<in>set cs. \<not> is_cache_call e"
      "cache_map (snd (parse ev cfg k cache_flag w)) = cache_map w" by blast
  with False show ?thesis by (auto simp add: new_calls_def list_ex_iff)
next
  case True
  let ?w1 = "call (CacheLookup k) w"
  have "\<exists>cs. calls (snd (parse ev cfg k cache_flag w)) = calls w @ CacheLookup k # cs"
  proof (cases "cache_map w k")
    case (Some rows)
    with True have eq: "parse ev cfg k cache_flag w = populate ev cfg rows ?w1"
      by (simp add: parse_hit)
    have run: "populate ev cfg rows ?w1 = (fst (populate ev cfg rows ?w1), snd (populate ev cfg rows ?w1))"
      by simp
    from populate_calls [OF run] show ?thesis unfolding eq by (auto simp add: call_def)
  next
    case None
    then have fresh: "\<not> (cache cfg \<and> cache_flag) \<or> cache_map w k = None" by simp
    have w1: "?w1 = (if cache cfg \<and> cache_flag then call (CacheLookup k) w else w)"
      using True by simp
    from fresh w1 show ?thesis
    proof (cases rule: parse_fresh_run [where ev = ev])
      case (raised e w2)
      from get_raw_hosts_calls_form [OF raised(1)] raised(2) show ?thesis
        by (auto simp add: call_def)
    next
      case (fetched rows w2 w3)
      have run: "populate ev cfg rows w3 = (fst (populate ev cfg rows w3), snd (populate ev cfg rows w3))"
        by simp
      from get_raw_hosts_calls_form [OF fetched(1)] obtain cs1 where
        "calls w2 = calls ?w1 @ cs1" by blast
      moreover from fetched(2) True have "calls w3 = calls w2 @ [CacheStore k rows]"
        by (simp add: call_def)
      moreover from populate_calls [OF run] obtain cs2 where
        "calls (snd (populate ev cfg rows w3)) = calls w3 @ cs2" by blast
      ultimately show ?thesis unfolding fetched(3) by (simp add: call_def)
    qed
  qed
  then obtain cs where "calls (snd (parse ev cfg k cache_flag w)) = calls w @ CacheLookup k # cs"
    by blast
  with True show ?thesis by (simp add: new_calls_def)
qed

lemma cache_map_call: "cache_map (call e w) = cache_map w"
  by (simp add: call_def)

text \<open>
  C6. The cache is consulted and populated exactly when the configuration option and the
  caller's flag are both true. Then the first call of the load is the lookup of the key;
  on a hit the cached rows are populated and the cache stays as it was; on a miss the
  rows a successful fetch returns are stored under the key, so that the cache afterwards
  is the old one with the key bound to them, and a failed fetch leaves the cache as it
  was. When either is false the load makes no cache call at all, fetches and populates
  without the cache and leaves it unchanged, so a caller that turns caching off always
  wins.
\<close>

theorem cache_decision:
  "list_ex is_cache_call (new_calls w (snd (parse ev cfg k cache_flag w))) = (cache cfg \<and> cache_flag)
   \<and> (\<not> (cache cfg \<and> cache_flag) \<longrightarrow>
        cache_map (snd (parse ev cfg k cache_flag w)) = cache_map w
        \<and> parse ev cfg k cache_flag w =
            (case get_raw_hosts ev cfg w of
               (Inl e, w2) \<Rightarrow> (Inl e, w2)
             | (Inr rows, w2) \<Rightarrow> populate ev cfg rows w2))
   \<and> (cache cfg \<and> cache_flag \<longrightarrow>
        take 1 (new_calls w (snd (parse ev cfg k cache_flag w))) = [CacheLookup k])
   \<and> (cache cfg \<and> cache_flag \<and> cache_map w k = Some rows \<longrightarrow>
        parse ev cfg k cache_flag w = populate ev cfg rows (call (CacheLookup k) w)
        \<and> cache_map (snd (parse ev cfg k cache_flag w)) = cache_map w)
   \<and> (cache cfg \<and> cache_flag \<and> cache_map w k = None
        \<and> get_raw_hosts ev cfg (call (CacheLookup k) w) = (Inr rows, w2) \<longrightarrow>
        parse ev cfg k cache_flag w =
          populate ev cfg rows
            ((call (CacheStore k rows) w2)\<lparr>cache_map := (cache_map w2)(k \<mapsto> rows)\<rparr>)
        \<and> CacheStore k rows \<in> set (new_calls w (snd (parse ev cfg k cache_flag w)))
        \<and> cache_map (snd (parse ev cfg k cache_flag w)) = (cache_map w)(k \<mapsto> rows))
   \<and> (cache cfg \<and> cache_flag \<and> cache_map w k = None
        \<and> get_raw_hosts ev cfg (call (CacheLookup k) w) = (Inl e, w2) \<longrightarrow>
        parse ev cfg k cache_flag w = (Inl e, w2)
        \<and> cache_map (snd (parse ev cfg k cache_flag w)) = cache_map w)"
proof (intro conjI impI)
  from cache_calls [of w ev cfg k cache_flag]
  show "list_ex is_cache_call (new_calls w (snd (parse ev cfg k cache_flag w)))
      = (cache cfg \<and> cache_flag)" by blast
next
  assume off: "\<not> (cache cfg \<and> cache_flag)"
  with cache_calls [of w ev cfg k cache_flag]
  show "cache_map (snd (parse ev cfg k cache_flag w)) = cache_map w" by blast
  from off have "\<not> (cache cfg \<and> cache_flag) \<or> cache_map w k = None" by simp
  from parse_fresh [OF this, of ev] off
  show "parse ev cfg k cache_flag w =
            (case get_raw_hosts ev cfg w of
               (Inl e, w2) \<Rightarrow> (Inl e, w2)
             | (Inr rows, w2) \<Rightarrow> populate ev cfg rows w2)"
    by (auto split: prod.split sum.split)
next
  assume "cache cfg \<and> cache_flag"
  with cache_calls [of w ev cfg k cache_flag]
  show "take 1 (new_calls w (snd (parse ev cfg k cache_flag w))) = [CacheLookup k]" by blast
next
  assume hit: "cache cfg \<and> cache_flag \<and> cache_map w k = Some rows"
  then show eq: "parse ev cfg k cache_flag w = populate ev cfg rows (call (CacheLookup k) w)"
    by (simp add: parse_hit)
  let ?w1 = "call (CacheLookup k) w"
  have run: "populate ev cfg rows ?w1 = (fst (populate ev cfg rows ?w1), snd (populate ev cfg rows ?w1))"
    by simp
  from populate_frame [OF run]
  show "cache_map (snd (parse ev cfg k cache_flag w)) = cache_map w"
    unfolding eq by (simp add: cache_map_call)
next
  assume store: "cache cfg \<and> cache_flag \<and> cache_map w k = None
        \<and> get_raw_hosts ev cfg (call (CacheLookup k) w) = (Inr rows, w2)"
  let ?w3 = "(call (CacheStore k rows) w2)\<lparr>cache_map := (cache_map w2)(k \<mapsto> rows)\<rparr>"
  from store have fresh: "\<not> (cache cfg \<and> cache_flag) \<or> cache_map w k = None" by simp
  from parse_fresh [OF fresh, of ev] store
  show eq: "parse ev cfg k cache_flag w = populate ev cfg rows ?w3" by simp
  have run: "populate ev cfg rows ?w3 = (fst (populate ev cfg rows ?w3), snd (populate ev cfg rows ?w3))"
    by simp
  from store have fetched: "get_raw_hosts ev cfg (call (CacheLookup k) w) = (Inr rows, w2)" by simp
  from get_raw_hosts_frame [of ev cfg "call (CacheLookup k) w"] fetched
  have same: "cache_map w2 = cache_map w" by (simp add: cache_map_call)
  from populate_frame [OF run] same
  show "cache_map (snd (parse ev cfg k cache_flag w)) = (cache_map w)(k \<mapsto> rows)"
    unfolding eq by simp
  from get_raw_hosts_calls_form [OF fetched] obtain cs1 where
    c1: "calls w2 = calls w @ CacheLookup k # cs1"
    by (auto simp add: call_def)
  from populate_calls [OF run] obtain cs2 where
    "calls (snd (populate ev cfg rows ?w3)) = calls ?w3 @ cs2" by blast
  with c1 have "new_calls w (snd (populate ev cfg rows ?w3))
      = (CacheLookup k # cs1) @ CacheStore k rows # cs2"
    by (simp add: new_calls_def call_def)
  then show "CacheStore k rows \<in> set (new_calls w (snd (parse ev cfg k cache_flag w)))"
    unfolding eq by simp
next
  assume failed: "cache cfg \<and> cache_flag \<and> cache_map w k = None
        \<and> get_raw_hosts ev cfg (call (CacheLookup k) w) = (Inl e, w2)"
  then have fresh: "\<not> (cache cfg \<and> cache_flag) \<or> cache_map w k = None" by simp
  from parse_fresh [OF fresh, of ev] failed
  show eq: "parse ev cfg k cache_flag w = (Inl e, w2)" by simp
  from failed have fetched: "get_raw_hosts ev cfg (call (CacheLookup k) w) = (Inl e, w2)" by simp
  from get_raw_hosts_frame [of ev cfg "call (CacheLookup k) w"] fetched
  show "cache_map (snd (parse ev cfg k cache_flag w)) = cache_map w"
    unfolding eq by (simp add: cache_map_call)
qed

theorem cache_decision_witness:
  "cache example_config \<and> cache_map empty_world ''K'' = None
   \<and> CacheStore ''K'' example_rows
       \<in> set (new_calls empty_world (snd (parse example_env example_config ''K'' True empty_world)))
   \<and> cache_map (snd (parse example_env example_config ''K'' True empty_world))
       = (cache_map empty_world)(''K'' \<mapsto> example_rows)
   \<and> list_ex is_cache_call
       (new_calls cached_world (snd (parse example_env example_config ''K'' True cached_world)))
   \<and> \<not> list_ex is_cache_call
       (new_calls cached_world (snd (parse example_env example_config ''K'' False cached_world)))
   \<and> cache_map (snd (parse example_env example_config ''K'' False cached_world))
       = cache_map cached_world"
proof -
  let ?w2 = "snd (get_raw_hosts example_env example_config (call (CacheLookup ''K'') empty_world))"
  have on: "cache example_config" by (simp add: example_config_def)
  have miss: "cache_map empty_world ''K'' = None" by (simp add: empty_world_def)
  have "fst (get_raw_hosts example_env example_config (call (CacheLookup ''K'') empty_world))
      = Inr example_rows"
    by (simp add: get_raw_hosts_def example_env_def example_config_def
          query_failed_def startswith_def upper_def strip_def isspace_def upper_char_def
          char_of_eq_iff Let_def)
  then have fetched: "get_raw_hosts example_env example_config (call (CacheLookup ''K'') empty_world)
      = (Inr example_rows, ?w2)"
    by (simp add: prod_eq_iff)
  from cache_decision [of empty_world example_env example_config "''K''" True example_rows ?w2]
    on miss fetched
  have stored: "CacheStore ''K'' example_rows
       \<in> set (new_calls empty_world (snd (parse example_env example_config ''K'' True empty_world)))"
    "cache_map (snd (parse example_env example_config ''K'' True empty_world))
       = (cache_map empty_world)(''K'' \<mapsto> example_rows)"
    by blast+
  from cache_decision [of cached_world example_env example_config "''K''" True] on
  have used: "list_ex is_cache_call
       (new_calls cached_world (snd (parse example_env example_config ''K'' True cached_world)))"
    by blast
  from cache_decision [of cached_world example_env example_config "''K''" False]
  have off: "\<not> list_ex is_cache_call
       (new_calls cached_world (snd (parse example_env example_config ''K'' False cached_world)))"
    "cache_map (snd (parse example_env example_config ''K'' False cached_world))
       = cache_map cached_world"
    by blast+
  from on miss stored used off show ?thesis by (intro conjI)
qed

text \<open>
  C3, as stated, fails: with caching not utilized and a query that is no SELECT, the
  load raises the configuration error and the database is never contacted.
\<close>

theorem always_queried_counterexample:
  "cache_map empty_world ''K'' = None
   \<and> fst (parse example_env drop_table_config ''K'' False empty_world)
       = Inl (AnsibleError ''Database query must be a valid SELECT statement'')
   \<and> new_calls empty_world (snd (parse example_env drop_table_config ''K'' False empty_world)) = []"
  by (simp add: parse_def get_raw_hosts_def drop_table_config_def example_config_def
        empty_world_def display_error_def new_calls_def startswith_def upper_def strip_def
        isspace_def upper_char_def char_of_eq_iff)

text \<open>
  C3, amended. On a cache hit the cached rows are populated and no database call is
  made. On a miss, or when caching is not utilized, the fetch operation is always
  invoked; it contacts the database whenever the query passes its validation. When a
  fresh fetch returns rows and the cache is utilized, the rows are stored under the key
  before the population starts: no host is registered before the store, and the cache
  holds the rows afterwards, whatever the population does.
\<close>

theorem parse_cache_flow:
  "(cache cfg \<and> cache_flag \<and> cache_map w k = Some rows \<longrightarrow>
      parse ev cfg k cache_flag w = populate ev cfg rows (call (CacheLookup k) w)
      \<and> filter is_db_call (new_calls w (snd (parse ev cfg k cache_flag w))) = [])
   \<and> (\<not> (cache cfg \<and> cache_flag) \<or> cache_map w k = None \<longrightarrow>
        parse ev cfg k cache_flag w =
          (case get_raw_hosts ev cfg
                  (if cache cfg \<and> cache_flag then call (CacheLookup k) w else w) of
             (Inl e, w2) \<Rightarrow> (Inl e, w2)
           | (Inr rows, w2) \<Rightarrow>
               populate ev cfg rows
                 (if cache cfg \<and> cache_flag
                  then (call (CacheStore k rows) w2)\<lparr>cache_map := (cache_map w2)(k \<mapsto> rows)\<rparr>
                  else w2))
        \<and> (\<not> query_rejected (db_query cfg) \<longrightarrow>
             Connect (db_host cfg) (db_port cfg) (db_user cfg) (db_password cfg) (db_name cfg)
               \<in> set (new_calls w (snd (parse ev cfg k cache_flag w)))))
   \<and> (cache cfg \<and> cache_flag \<and> cache_map w k = None
        \<and> get_raw_hosts ev cfg (call (CacheLookup k) w) = (Inr rows, w2) \<longrightarrow>
        parse ev cfg k cache_flag w =
          populate ev cfg rows
            ((call (CacheStore k rows) w2)\<lparr>cache_map := (cache_map w2)(k \<mapsto> rows)\<rparr>)
        \<and> cache_map (snd (parse ev cfg k cache_flag w)) k = Some rows
        \<and> (\<exists>before after. new_calls w (snd (parse ev cfg k cache_flag w))
               = before @ CacheStore k rows # after
             \<and> \<not> list_ex is_add_host before))"
proof (intro conjI impI)
  assume hit: "cache cfg \<and> cache_flag \<and> cache_map w k = Some rows"
  then show eq: "parse ev cfg k cache_flag w = populate ev cfg rows (call (CacheLookup k) w)"
    by (simp add: parse_hit)
  let ?w1 = "call (CacheLookup k) w"
  have run: "populate ev cfg rows ?w1 = (fst (populate ev cfg rows ?w1), snd (populate ev cfg rows ?w1))"
    by simp
  from populate_calls_inventory [OF run] obtain cs where
    cs: "calls (snd (populate ev cfg rows ?w1)) = calls ?w1 @ cs"
      "\<forall>e\<in>set cs. \<not> is_db_call e \<and> \<not> is_cache_call e"
    by blast
  then have "new_calls w (snd (populate ev cfg rows ?w1)) = CacheLookup k # cs"
    by (simp add: new_calls_def call_def)
  with cs(2) show "filter is_db_call (new_calls w (snd (parse ev cfg k cache_flag w))) = []"
    unfolding eq by (simp add: filter_empty_conv)
next
  assume fresh: "\<not> (cache cfg \<and> cache_flag) \<or> cache_map w k = None"
  then show "parse ev cfg k cache_flag w =
          (case get_raw_hosts ev cfg
                  (if cache cfg \<and> cache_flag then call (CacheLookup k) w else w) of
             (Inl e, w2) \<Rightarrow> (Inl e, w2)
           | (Inr rows, w2) \<Rightarrow>
               populate ev cfg rows
                 (if cache cfg \<and> cache_flag
                  then (call (CacheStore k rows) w2)\<lparr>cache_map := (cache_map w2)(k \<mapsto> rows)\<rparr>
                  else w2))"
    by (rule parse_fresh)
  assume valid: "\<not> query_rejected (db_query cfg)"
  let ?c = "Connect (db_host cfg) (db_port cfg) (db_user cfg) (db_password cfg) (db_name cfg)"
  define w1 where "w1 = (if cache cfg \<and> cache_flag then call (CacheLookup k) w else w)"
  have pre: "\<exists>cs0. calls w1 = calls w @ cs0" by (simp add: w1_def call_def)
  from get_raw_hosts_connects [OF valid, of ev w1] obtain cs1 where
    c1: "calls (snd (get_raw_hosts ev cfg w1)) = calls w1 @ ?c # cs1" by blast
  from fresh w1_def have "\<exists>cs2. calls (snd (parse ev cfg k cache_flag w))
      = calls (snd (get_raw_hosts ev cfg w1)) @ cs2"
  proof (cases rule: parse_fresh_run [where ev = ev])
    case (raised e w2)
    then show ?thesis by simp
  next
    case (fetched rows' w2' w3)
    have run: "populate ev cfg rows' w3 = (fst (populate ev cfg rows' w3), snd (populate ev cfg rows' w3))"
      by simp
    from populate_calls [OF run] obtain cs where
      "calls (snd (populate ev cfg rows' w3)) = calls w3 @ cs" by blast
    moreover from fetched(2) have "\<exists>cs'. calls w3 = calls w2' @ cs'"
      by (simp add: call_def)
    ultimately show ?thesis unfolding fetched(3) using fetched(1) by auto
  qed
  with c1 pre obtain cs0 cs2 where
    "calls (snd (parse ev cfg k cache_flag w)) = calls w @ cs0 @ ?c # cs1 @ cs2" by auto
  then show "?c \<in> set (new_calls w (snd (parse ev cfg k cache_flag w)))"
    by (simp add: new_calls_def)
next
  assume store: "cache cfg \<and> cache_flag \<and> cache_map w k = None
        \<and> get_raw_hosts ev cfg (call (CacheLookup k) w) = (Inr rows, w2)"
  let ?w3 = "(call (CacheStore k rows) w2)\<lparr>cache_map := (cache_map w2)(k \<mapsto> rows)\<rparr>"
  from store have fresh: "\<not> (cache cfg \<and> cache_flag) \<or> cache_map w k = None" by simp
  from parse_fresh [OF fresh, of ev] store
  show eq: "parse ev cfg k cache_flag w = populate ev cfg rows ?w3" by simp
  have run: "populate ev cfg rows ?w3 = (fst (populate ev cfg rows ?w3), snd (populate ev cfg rows ?w3))"
    by simp
  from populate_frame [OF run]
  show "cache_map (snd (parse ev cfg k cache_flag w)) k = Some rows" unfolding eq by simp
  from store have fetched: "get_raw_hosts ev cfg (call (CacheLookup k) w) = (Inr rows, w2)" by simp
  from get_raw_hosts_calls_form [OF fetched] obtain cs1 where
    c1: "calls w2 = calls w @ CacheLookup k # cs1" "\<forall>e\<in>set cs1. is_db_call e"
    by (auto simp add: call_def)
  from populate_calls [OF run] obtain cs2 where
    "calls (snd (populate ev cfg rows ?w3)) = calls ?w3 @ cs2" by blast
  with c1(1) have "new_calls w (snd (populate ev cfg rows ?w3))
      = (CacheLookup k # cs1) @ CacheStore k rows # cs2"
    by (simp add: new_calls_def call_def)
  moreover from c1(2) have "\<not> list_ex is_add_host (CacheLookup k # cs1)"
    by (auto simp add: list_ex_iff db_call_not_add_host)
  ultimately show "\<exists>before after. new_calls w (snd (parse ev cfg k cache_flag w))
               = before @ CacheStore k rows # after
             \<and> \<not> list_ex is_add_host before"
    unfolding eq by blast
qed

theorem parse_cache_flow_witness:
  "cache example_config \<and> cache_map empty_world ''K'' = None
   \<and> \<not> query_rejected (db_query example_config)
   \<and> Connect ''localhost'' 3306 ''ansible'' ''ansiblepass'' ''master''
       \<in> set (new_calls empty_world
               (snd (parse example_env example_config ''K'' True empty_world)))
   \<and> cache_map (snd (parse example_env example_config ''K'' True empty_world)) ''K''
       = Some example_rows
   \<and> filter is_db_call
       (new_calls (snd (parse example_env example_config ''K'' True empty_world))
          (snd (parse example_env example_config ''K'' True
                  (snd (parse example_env example_config ''K'' True empty_world))))) = []
   \<and> \<not> query_rejected (db_query padded_config)
   \<and> Connect ''localhost'' 3306 ''ansible'' ''ansiblepass'' ''master''
       \<in> set (new_calls empty_world
               (snd (parse example_env padded_config ''K'' False empty_world)))"
proof -
  let ?first = "snd (parse example_env example_config ''K'' True empty_world)"
  let ?w2 = "snd (get_raw_hosts example_env example_config (call (CacheLookup ''K'') empty_world))"
  have on: "cache example_config" by (simp add: example_config_def)
  have miss: "cache_map empty_world ''K'' = None" by (simp add: empty_world_def)
  have valid: "\<not> query_rejected (db_query example_config)"
    by (simp add: example_config_def query_rejected_def begins_with_select_def strip_def
          isspace_def upper_char_def char_of_eq_iff)
  have "fst (get_raw_hosts example_env example_config (call (CacheLookup ''K'') empty_world))
      = Inr example_rows"
    by (simp add: get_raw_hosts_def example_env_def example_config_def
          query_failed_def startswith_def upper_def strip_def isspace_def upper_char_def
          char_of_eq_iff Let_def)
  then have fetched: "get_raw_hosts example_env example_config (call (CacheLookup ''K'') empty_world)
      = (Inr example_rows, ?w2)"
    by (simp add: prod_eq_iff)
  from parse_cache_flow [of example_config True empty_world "''K''" example_rows example_env ?w2]
    on miss valid fetched
  have contacted: "Connect (db_host example_config) (db_port example_config)
        (db_user example_config) (db_password example_config) (db_name example_config)
       \<in> set (new_calls empty_world ?first)"
    and stored: "cache_map ?first ''K'' = Some example_rows"
    by blast+
  from parse_cache_flow [of example_config True ?first "''K''" example_rows example_env ?w2]
    on stored
  have again: "filter is_db_call
       (new_calls ?first (snd (parse example_env example_config ''K'' True ?first))) = []"
    by blast
  from contacted have direct: "Connect ''localhost'' 3306 ''ansible'' ''ansiblepass'' ''master''
       \<in> set (new_calls empty_world ?first)"
    by (simp add: example_config_def)
  have padded: "\<not> query_rejected (db_query padded_config)"
    using padded_query_fetches by blast
  from parse_cache_flow [of padded_config False empty_world "''K''" example_rows example_env ?w2]
    padded
  have "Connect (db_host padded_config) (db_port padded_config)
        (db_user padded_config) (db_password padded_config) (db_name padded_config)
       \<in> set (new_calls empty_world
               (snd (parse example_env padded_config ''K'' False empty_world)))"
    by blast
  then have through: "Connect ''localhost'' 3306 ''ansible'' ''ansiblepass'' ''master''
       \<in> set (new_calls empty_world
               (snd (parse example_env padded_config ''K'' False empty_world)))"
    by (simp add: padded_config_def example_config_def)
  from on miss valid direct stored again padded through show ?thesis by (intro conjI)
qed

end
